theory Spec2Isabelle
  imports Main "HOL-Library.Word" "HOL-Library.Signed_Division" "HOL-Library.Monad_Syntax"
begin

unbundle bit_operations_syntax

section \<open>Status codes, enumerations and pointers\<close>

text \<open>
  Modelled from the spec: the declaration of \<open>rocsparse_status\<close> lives in the public
  header, which is not among the sources. The spec names a closed set of eight codes that
  an operation may return; the sources add the internal sentinel
  \<open>rocsparse_status_continue\<close>, which the checkarg/quickreturn pipeline uses to say
  "go on with the core".
\<close>

datatype rocsparse_status =
    rocsparse_status_success
  | rocsparse_status_invalid_handle
  | rocsparse_status_not_implemented
  | rocsparse_status_invalid_pointer
  | rocsparse_status_invalid_size
  | rocsparse_status_memory_error
  | rocsparse_status_internal_error
  | rocsparse_status_invalid_value
  | rocsparse_status_continue

definition closed_status_set :: "rocsparse_status set" where
  "closed_status_set =
     {rocsparse_status_success, rocsparse_status_invalid_handle,
      rocsparse_status_invalid_value, rocsparse_status_invalid_pointer,
      rocsparse_status_invalid_size, rocsparse_status_memory_error,
      rocsparse_status_not_implemented, rocsparse_status_internal_error}"

text \<open>
  Modelled from the spec: the enumerations are declared in the public header as well. A C
  enumeration variable can hold a value that is none of its enumerators; each enumeration
  that \<open>ROCSPARSE_CHECKARG_ENUM\<close> inspects therefore has one more constructor standing
  for every such value.
\<close>

datatype rocsparse_operation =
    rocsparse_operation_none
  | rocsparse_operation_transpose
  | rocsparse_operation_conjugate_transpose
  | rocsparse_operation_out_of_range

datatype rocsparse_analysis_policy =
    rocsparse_analysis_policy_reuse
  | rocsparse_analysis_policy_force
  | rocsparse_analysis_policy_out_of_range

datatype rocsparse_solve_policy =
    rocsparse_solve_policy_auto
  | rocsparse_solve_policy_out_of_range

datatype rocsparse_matrix_type =
    rocsparse_matrix_type_general
  | rocsparse_matrix_type_symmetric
  | rocsparse_matrix_type_hermitian
  | rocsparse_matrix_type_triangular

datatype rocsparse_storage_mode =
    rocsparse_storage_mode_sorted
  | rocsparse_storage_mode_unsorted

datatype rocsparse_index_base =
    rocsparse_index_base_zero
  | rocsparse_index_base_one

datatype rocsparse_fill_mode =
    rocsparse_fill_mode_lower
  | rocsparse_fill_mode_upper

datatype rocsparse_diag_type =
    rocsparse_diag_type_non_unit
  | rocsparse_diag_type_unit

text \<open>
  Pointers are 64-bit addresses; \<open>nullptr\<close> is address 0 and pointer arithmetic on a
  \<open>char*\<close> is addition of addresses. The matrix descriptor is the one object the
  analysis routine reads through its pointer (\<open>descr->type\<close>,
  \<open>descr->storage_mode\<close>, \<open>descr->base\<close>), so a descriptor argument is modelled by
  its pointee, \<open>None\<close> being the null descriptor.
\<close>

type_synonym pointer = "64 word"

definition nullptr :: pointer where
  "nullptr = 0"

record rocsparse_mat_descr_struct =
  descr_type :: rocsparse_matrix_type
  descr_fill_mode :: rocsparse_fill_mode
  descr_diag_type :: rocsparse_diag_type
  descr_base :: rocsparse_index_base
  descr_storage_mode :: rocsparse_storage_mode

type_synonym rocsparse_mat_descr = "rocsparse_mat_descr_struct option"

type_synonym int64_t = "64 word"
type_synonym int32_t = "32 word"

section \<open>The argument-checking macros\<close>

text \<open>
  Modelled from the spec: the macros \<open>ROCSPARSE_CHECKARG\<close>,
  \<open>ROCSPARSE_CHECKARG_HANDLE\<close>, \<open>ROCSPARSE_CHECKARG_ENUM\<close>,
  \<open>ROCSPARSE_CHECKARG_SIZE\<close>, \<open>ROCSPARSE_CHECKARG_POINTER\<close>,
  \<open>ROCSPARSE_CHECKARG_ARRAY\<close> and \<open>RETURN_IF_ROCSPARSE_ERROR\<close> come from headers
  that are not among the sources. Each check is a guard that returns its status at once
  when its condition holds: a null handle is an invalid handle, an enumeration value that
  is no enumerator is an invalid value, a negative size is an invalid size, a null pointer
  is an invalid pointer, and an array may be null only when its length is not positive.
  A guard is modelled by its condition; the routine below chains the guards in the order
  of the source.
\<close>

definition operation_is_invalid :: "rocsparse_operation \<Rightarrow> bool" where
  "operation_is_invalid v = (v = rocsparse_operation_out_of_range)"

definition analysis_policy_is_invalid :: "rocsparse_analysis_policy \<Rightarrow> bool" where
  "analysis_policy_is_invalid v = (v = rocsparse_analysis_policy_out_of_range)"

definition solve_policy_is_invalid :: "rocsparse_solve_policy \<Rightarrow> bool" where
  "solve_policy_is_invalid v = (v = rocsparse_solve_policy_out_of_range)"

definition CHECKARG_SIZE :: "int64_t \<Rightarrow> bool" where
  "CHECKARG_SIZE sz = (sz <s 0)"

definition CHECKARG_POINTER :: "pointer \<Rightarrow> bool" where
  "CHECKARG_POINTER p = (p = nullptr)"

definition CHECKARG_ARRAY :: "int64_t \<Rightarrow> pointer \<Rightarrow> bool" where
  "CHECKARG_ARRAY sz p = (0 <s sz \<and> p = nullptr)"

section \<open>The COO triangular-solve analysis routine\<close>

subsection \<open>Quick return and argument checks\<close>

definition rocsparse_coosm_analysis_quickreturn ::
  "pointer \<Rightarrow> rocsparse_operation \<Rightarrow> rocsparse_operation \<Rightarrow> int64_t \<Rightarrow> int64_t \<Rightarrow> int64_t
   \<Rightarrow> pointer \<Rightarrow> rocsparse_mat_descr \<Rightarrow> pointer \<Rightarrow> pointer \<Rightarrow> pointer \<Rightarrow> pointer
   \<Rightarrow> int64_t \<Rightarrow> pointer \<Rightarrow> rocsparse_analysis_policy \<Rightarrow> rocsparse_solve_policy
   \<Rightarrow> pointer \<Rightarrow> rocsparse_status" where
  "rocsparse_coosm_analysis_quickreturn handle trans_A trans_B m nrhs nnz alpha_device_host
     descr coo_val coo_row_ind coo_col_ind B ldb info analysis solve temp_buffer =
     (if m = 0 \<or> nrhs = 0 then rocsparse_status_success else rocsparse_status_continue)"

definition rocsparse_coosm_analysis_checkarg ::
  "pointer \<Rightarrow> rocsparse_operation \<Rightarrow> rocsparse_operation \<Rightarrow> int64_t \<Rightarrow> int64_t \<Rightarrow> int64_t
   \<Rightarrow> pointer \<Rightarrow> rocsparse_mat_descr \<Rightarrow> pointer \<Rightarrow> pointer \<Rightarrow> pointer \<Rightarrow> pointer
   \<Rightarrow> int64_t \<Rightarrow> pointer \<Rightarrow> rocsparse_analysis_policy \<Rightarrow> rocsparse_solve_policy
   \<Rightarrow> pointer \<Rightarrow> rocsparse_status" where
  "rocsparse_coosm_analysis_checkarg handle trans_A trans_B m nrhs nnz alpha_device_host
     descr coo_val coo_row_ind coo_col_ind B ldb info analysis solve temp_buffer =
     (if handle = nullptr then rocsparse_status_invalid_handle
      else if operation_is_invalid trans_A then rocsparse_status_invalid_value
      else if operation_is_invalid trans_B then rocsparse_status_invalid_value
      else if CHECKARG_SIZE m then rocsparse_status_invalid_size
      else if CHECKARG_SIZE nrhs then rocsparse_status_invalid_size
      else if CHECKARG_SIZE nnz then rocsparse_status_invalid_size
      else case descr of
        None \<Rightarrow> rocsparse_status_invalid_pointer
      | Some d \<Rightarrow>
         if descr_type d \<noteq> rocsparse_matrix_type_general
           then rocsparse_status_not_implemented
         else if descr_storage_mode d \<noteq> rocsparse_storage_mode_sorted
           then rocsparse_status_not_implemented
         else if CHECKARG_POINTER info then rocsparse_status_invalid_pointer
         else if analysis_policy_is_invalid analysis then rocsparse_status_invalid_value
         else if solve_policy_is_invalid solve then rocsparse_status_invalid_value
         else
           let status = rocsparse_coosm_analysis_quickreturn handle trans_A trans_B m nrhs
                          nnz alpha_device_host descr coo_val coo_row_ind coo_col_ind B ldb
                          info analysis solve temp_buffer
           in if status \<noteq> rocsparse_status_continue then
                (if status \<noteq> rocsparse_status_success then status
                 else rocsparse_status_success)
              else if CHECKARG_POINTER alpha_device_host then rocsparse_status_invalid_pointer
              else if CHECKARG_ARRAY nnz coo_val then rocsparse_status_invalid_pointer
              else if CHECKARG_ARRAY nnz coo_row_ind then rocsparse_status_invalid_pointer
              else if CHECKARG_ARRAY nnz coo_col_ind then rocsparse_status_invalid_pointer
              else if CHECKARG_POINTER B then rocsparse_status_invalid_pointer
              else if CHECKARG_POINTER temp_buffer then rocsparse_status_invalid_pointer
              else rocsparse_status_continue)"

subsection \<open>The collaborators\<close>

text \<open>
  The core calls two templates that are not among the sources: the COO-to-CSR conversion
  \<open>rocsparse_coo2csr_template\<close> and the CSR analysis
  \<open>rocsparse_csrsm_analysis_template\<close>. What the core does is decided by which of them
  it calls, in which order and with which arguments, so a call is a value: the callee
  together with its arguments in the order of the source. The row-pointer index type
  \<open>J\<close> of a call (\<open>int32_t\<close> or \<open>int64_t\<close>) is carried by the \<open>nnz\<close> argument.
  The type parameter is the index type \<open>I\<close> of the matrix. The collaborators
  themselves are a parameter \<open>run\<close> of the core, which executes a call
  on the state of the device (the temp buffer, the info object) and gives back a status.
\<close>

datatype csr_index = as_int32 int32_t | as_int64 int64_t

datatype 'idx collaborator_call =
    rocsparse_coo2csr_template
      pointer pointer csr_index 'idx pointer rocsparse_index_base
  | rocsparse_csrsm_analysis_template
      pointer rocsparse_operation rocsparse_operation 'idx 'idx csr_index
      pointer rocsparse_mat_descr pointer pointer pointer pointer int64_t pointer
      rocsparse_analysis_policy rocsparse_solve_policy pointer

subsection \<open>Core and template\<close>

text \<open>
  \<open>m / 256\<close> is the division of C++ on the signed index type \<open>I\<close>, which truncates
  towards zero. \<open>sizeof(J) * (m / 256 + 1) * 256\<close> is evaluated in \<open>size_t\<close>: the
  index value is converted to 64 unsigned bits and the products wrap around.
\<close>

definition index_div :: "'i::len word \<Rightarrow> 'i word \<Rightarrow> 'i word" where
  "index_div a b = word_of_int (sint a sdiv sint b)"

text \<open>
  The result of the core is \<open>None\<close> when it reads \<open>descr->base\<close> through a null
  descriptor, which has no defined behaviour. The two blocks of the \<open>if\<close> statement of
  the core are defined on their own, so that they can be compared; the core chooses
  between them.
\<close>

definition rocsparse_coosm_analysis_core_int32_branch ::
  "('i::len word collaborator_call \<Rightarrow> 's \<Rightarrow> rocsparse_status \<times> 's)
   \<Rightarrow> pointer \<Rightarrow> rocsparse_operation \<Rightarrow> rocsparse_operation \<Rightarrow> 'i word \<Rightarrow> 'i word
   \<Rightarrow> int64_t \<Rightarrow> pointer \<Rightarrow> rocsparse_mat_descr \<Rightarrow> pointer \<Rightarrow> pointer \<Rightarrow> pointer
   \<Rightarrow> pointer \<Rightarrow> int64_t \<Rightarrow> pointer \<Rightarrow> rocsparse_analysis_policy
   \<Rightarrow> rocsparse_solve_policy \<Rightarrow> pointer \<Rightarrow> 's \<Rightarrow> rocsparse_status option \<times> 's" where
  "rocsparse_coosm_analysis_core_int32_branch run handle trans_A trans_B m nrhs nnz
     alpha_device_host descr coo_val coo_row_ind coo_col_ind B ldb info analysis solve ptr s =
     (let csr_row_ptr = ptr;
          ptr = ptr + 4 * scast (index_div m 256 + 1) * 256;
          csr_col_ind = coo_col_ind;
          csr_val = coo_val
      in case descr of
        None \<Rightarrow> (None, s)
      | Some d \<Rightarrow>
         (case run (rocsparse_coo2csr_template handle coo_row_ind
                     (as_int32 (ucast nnz)) m csr_row_ptr (descr_base d)) s of
            (st1, s1) \<Rightarrow>
              if st1 \<noteq> rocsparse_status_success then (Some st1, s1)
              else
                (case run (rocsparse_csrsm_analysis_template handle trans_A trans_B m
                            nrhs (as_int32 (ucast nnz)) alpha_device_host descr csr_val
                            csr_row_ptr csr_col_ind B ldb info analysis solve ptr) s1 of
                   (st2, s2) \<Rightarrow>
                     if st2 \<noteq> rocsparse_status_success then (Some st2, s2)
                     else (Some rocsparse_status_success, s2))))"

definition rocsparse_coosm_analysis_core_int64_branch ::
  "('i::len word collaborator_call \<Rightarrow> 's \<Rightarrow> rocsparse_status \<times> 's)
   \<Rightarrow> pointer \<Rightarrow> rocsparse_operation \<Rightarrow> rocsparse_operation \<Rightarrow> 'i word \<Rightarrow> 'i word
   \<Rightarrow> int64_t \<Rightarrow> pointer \<Rightarrow> rocsparse_mat_descr \<Rightarrow> pointer \<Rightarrow> pointer \<Rightarrow> pointer
   \<Rightarrow> pointer \<Rightarrow> int64_t \<Rightarrow> pointer \<Rightarrow> rocsparse_analysis_policy
   \<Rightarrow> rocsparse_solve_policy \<Rightarrow> pointer \<Rightarrow> 's \<Rightarrow> rocsparse_status option \<times> 's" where
  "rocsparse_coosm_analysis_core_int64_branch run handle trans_A trans_B m nrhs nnz
     alpha_device_host descr coo_val coo_row_ind coo_col_ind B ldb info analysis solve ptr s =
     (let csr_row_ptr = ptr;
          ptr = ptr + 8 * scast (index_div m 256 + 1) * 256;
          csr_col_ind = coo_col_ind;
          csr_val = coo_val
      in case descr of
        None \<Rightarrow> (None, s)
      | Some d \<Rightarrow>
         (case run (rocsparse_coo2csr_template handle coo_row_ind
                     (as_int64 nnz) m csr_row_ptr (descr_base d)) s of
            (st1, s1) \<Rightarrow>
              if st1 \<noteq> rocsparse_status_success then (Some st1, s1)
              else
                (case run (rocsparse_csrsm_analysis_template handle trans_A trans_B m
                            nrhs (as_int64 nnz) alpha_device_host descr csr_val
                            csr_row_ptr csr_col_ind B ldb info analysis solve ptr) s1 of
                   (st2, s2) \<Rightarrow>
                     if st2 \<noteq> rocsparse_status_success then (Some st2, s2)
                     else (Some rocsparse_status_success, s2))))"

definition rocsparse_coosm_analysis_core ::
  "('i::len word collaborator_call \<Rightarrow> 's \<Rightarrow> rocsparse_status \<times> 's)
   \<Rightarrow> pointer \<Rightarrow> rocsparse_operation \<Rightarrow> rocsparse_operation \<Rightarrow> 'i word \<Rightarrow> 'i word
   \<Rightarrow> int64_t \<Rightarrow> pointer \<Rightarrow> rocsparse_mat_descr \<Rightarrow> pointer \<Rightarrow> pointer \<Rightarrow> pointer
   \<Rightarrow> pointer \<Rightarrow> int64_t \<Rightarrow> pointer \<Rightarrow> rocsparse_analysis_policy
   \<Rightarrow> rocsparse_solve_policy \<Rightarrow> pointer \<Rightarrow> 's \<Rightarrow> rocsparse_status option \<times> 's" where
  "rocsparse_coosm_analysis_core run handle trans_A trans_B m nrhs nnz alpha_device_host
     descr coo_val coo_row_ind coo_col_ind B ldb info analysis solve temp_buffer s =
     (let ptr = temp_buffer in
      if LENGTH('i) = 32 \<and> nnz <s 0x7FFFFFFF then
        rocsparse_coosm_analysis_core_int32_branch run handle trans_A trans_B m nrhs nnz
          alpha_device_host descr coo_val coo_row_ind coo_col_ind B ldb info analysis solve
          ptr s
      else
        rocsparse_coosm_analysis_core_int64_branch run handle trans_A trans_B m nrhs nnz
          alpha_device_host descr coo_val coo_row_ind coo_col_ind B ldb info analysis solve
          ptr s)"

definition rocsparse_coosm_analysis_template ::
  "('i::len word collaborator_call \<Rightarrow> 's \<Rightarrow> rocsparse_status \<times> 's)
   \<Rightarrow> pointer \<Rightarrow> rocsparse_operation \<Rightarrow> rocsparse_operation \<Rightarrow> 'i word \<Rightarrow> 'i word
   \<Rightarrow> int64_t \<Rightarrow> pointer \<Rightarrow> rocsparse_mat_descr \<Rightarrow> pointer \<Rightarrow> pointer \<Rightarrow> pointer
   \<Rightarrow> pointer \<Rightarrow> int64_t \<Rightarrow> pointer \<Rightarrow> rocsparse_analysis_policy
   \<Rightarrow> rocsparse_solve_policy \<Rightarrow> pointer \<Rightarrow> 's \<Rightarrow> rocsparse_status option \<times> 's" where
  "rocsparse_coosm_analysis_template run handle trans_A trans_B m nrhs nnz alpha_device_host
     descr coo_val coo_row_ind coo_col_ind B ldb info analysis solve temp_buffer s =
     (let status = rocsparse_coosm_analysis_checkarg handle trans_A trans_B (scast m)
                     (scast nrhs) nnz alpha_device_host descr coo_val coo_row_ind
                     coo_col_ind B ldb info analysis solve temp_buffer
      in if status \<noteq> rocsparse_status_continue then
           (if status \<noteq> rocsparse_status_success then (Some status, s)
            else (Some rocsparse_status_success, s))
         else
           (case rocsparse_coosm_analysis_core run handle trans_A trans_B m nrhs nnz
                   alpha_device_host descr coo_val coo_row_ind coo_col_ind B ldb info
                   analysis solve temp_buffer s of
              (None, s') \<Rightarrow> (None, s')
            | (Some st, s') \<Rightarrow>
                if st \<noteq> rocsparse_status_success then (Some st, s')
                else (Some rocsparse_status_success, s')))"

text \<open>
  A collaborator that only records the call it receives and answers with a given status:
  running the routine on it from the empty record yields the sequence of calls made.
\<close>

definition record_call ::
  "('idx collaborator_call \<Rightarrow> rocsparse_status) \<Rightarrow> 'idx collaborator_call
   \<Rightarrow> 'idx collaborator_call list
   \<Rightarrow> rocsparse_status \<times> 'idx collaborator_call list" where
  "record_call answer c calls = (answer c, calls @ [c])"

definition answer_success :: "'idx collaborator_call \<Rightarrow> rocsparse_status" where
  "answer_success c = rocsparse_status_success"





text \<open>
  The same call at the wider row-pointer type: a 32-bit \<open>nnz\<close> is sign-extended, and the
  scratch region in front of the remaining buffer, which holds the row pointers, is twice
  as long in bytes.
\<close>

fun widen_index :: "csr_index \<Rightarrow> csr_index" where
  "widen_index (as_int32 n) = as_int64 (scast n)"
| "widen_index (as_int64 n) = as_int64 n"

fun widen_call :: "'idx collaborator_call \<Rightarrow> 'idx collaborator_call" where
  "widen_call (rocsparse_coo2csr_template handle coo_row_ind nnz m csr_row_ptr base)
     = rocsparse_coo2csr_template handle coo_row_ind (widen_index nnz) m csr_row_ptr base"
| "widen_call (rocsparse_csrsm_analysis_template handle trans_A trans_B m nrhs nnz alpha
     descr csr_val csr_row_ptr csr_col_ind B ldb info analysis solve temp_buffer)
     = rocsparse_csrsm_analysis_template handle trans_A trans_B m nrhs (widen_index nnz)
         alpha descr csr_val csr_row_ptr csr_col_ind B ldb info analysis solve
         (case nnz of
            as_int32 n \<Rightarrow> csr_row_ptr + 2 * (temp_buffer - csr_row_ptr)
          | as_int64 n \<Rightarrow> temp_buffer)"

section \<open>The wrappers of the GEBSC matrix check\<close>

text \<open>
  The two wrappers forward their parameter pack \<open>p\<close> to a checkarg function and to a
  core that are only declared in the sources; both are parameters here, the core working
  on the state.
\<close>

definition rocsparse_check_matrix_gebsc_buffer_size_impl ::
  "('p \<Rightarrow> rocsparse_status) \<Rightarrow> ('p \<Rightarrow> 's \<Rightarrow> rocsparse_status \<times> 's) \<Rightarrow> 'p \<Rightarrow> 's
   \<Rightarrow> rocsparse_status \<times> 's" where
  "rocsparse_check_matrix_gebsc_buffer_size_impl
     rocsparse_check_matrix_gebsc_buffer_size_checkarg
     rocsparse_check_matrix_gebsc_buffer_size_core p s =
     (let status = rocsparse_check_matrix_gebsc_buffer_size_checkarg p
      in if status \<noteq> rocsparse_status_continue then
           (if status \<noteq> rocsparse_status_success then (status, s)
            else (rocsparse_status_success, s))
         else
           (case rocsparse_check_matrix_gebsc_buffer_size_core p s of
              (st, s') \<Rightarrow>
                if st \<noteq> rocsparse_status_success then (st, s')
                else if status \<noteq> rocsparse_status_continue then
                  (if status \<noteq> rocsparse_status_success then (status, s')
                   else (rocsparse_status_success, s'))
                else (rocsparse_status_success, s')))"

definition rocsparse_check_matrix_gebsc_impl ::
  "('p \<Rightarrow> rocsparse_status) \<Rightarrow> ('p \<Rightarrow> 's \<Rightarrow> rocsparse_status \<times> 's) \<Rightarrow> 'p \<Rightarrow> 's
   \<Rightarrow> rocsparse_status \<times> 's" where
  "rocsparse_check_matrix_gebsc_impl rocsparse_check_matrix_gebsc_checkarg
     rocsparse_check_matrix_gebsc_core p s =
     (let status = rocsparse_check_matrix_gebsc_checkarg p
      in if status \<noteq> rocsparse_status_continue then
           (if status \<noteq> rocsparse_status_success then (status, s)
            else (rocsparse_status_success, s))
         else
           (case rocsparse_check_matrix_gebsc_core p s of
              (st, s') \<Rightarrow>
                if st \<noteq> rocsparse_status_success then (st, s')
                else if status \<noteq> rocsparse_status_continue then
                  (if status \<noteq> rocsparse_status_success then (status, s')
                   else (rocsparse_status_success, s'))
                else (rocsparse_status_success, s')))"

text \<open>Concrete stand-ins for the undefined GEBSC functions, for running the wrappers.\<close>

definition gebsc_checkarg_continues :: "unit \<Rightarrow> rocsparse_status" where
  "gebsc_checkarg_continues p = rocsparse_status_continue"

definition gebsc_core_succeeds :: "unit \<Rightarrow> nat \<Rightarrow> rocsparse_status \<times> nat" where
  "gebsc_core_succeeds p s = (rocsparse_status_success, Suc s)"

section \<open>Test matrix generators of the client utilities\<close>

subsection \<open>The 2D Laplacian in CSR format\<close>

text \<open>
  Modelled from the spec: the typedef of \<open>rocsparse_int\<close> lives in the public header,
  which is not among the sources; it is the 32-bit signed index type (the spec speaks of
  32-bit and 64-bit index widths, and 32 bits is the width of the default build). A sum,
  difference or product of \<open>rocsparse_int\<close> values that leaves the range has no defined
  behaviour in C++: \<open>rocsparse_int_of\<close> gives \<open>None\<close> for it, and a generator that
  computes such a value has the result \<open>None\<close>, as it has when it writes outside a
  vector. Memory is taken to be available for every vector size in the range.
\<close>

definition rocsparse_int_min :: int where
  "rocsparse_int_min = - 2147483648"

definition rocsparse_int_max :: int where
  "rocsparse_int_max = 2147483647"

definition rocsparse_int_of :: "int \<Rightarrow> int option" where
  "rocsparse_int_of x =
     (if rocsparse_int_min \<le> x \<and> x \<le> rocsparse_int_max then Some x else None)"

text \<open>
  Loop counters and the fill count \<open>nnz\<close> start at zero and only grow; they are natural
  numbers. The values of the scalar type \<open>T\<close> that the generator stores are \<open>-1\<close> and
  \<open>4\<close>; they are kept as integers. A vector is a list; \<open>v.resize(k)\<close> truncates or
  pads with zeros, and \<open>v[k] = x\<close> is defined for the positions inside the vector.
\<close>

fun index_base_value :: "rocsparse_index_base \<Rightarrow> int" where
  "index_base_value rocsparse_index_base_zero = 0"
| "index_base_value rocsparse_index_base_one = 1"

definition resize :: "'a::zero list \<Rightarrow> nat \<Rightarrow> 'a list" where
  "resize v k = take k v @ replicate (k - length v) 0"

text \<open>\<open>v.resize(k)\<close> for a \<open>rocsparse_int\<close> \<open>k\<close>; a negative size is no size.\<close>

definition resize_to :: "'a::zero list \<Rightarrow> int \<Rightarrow> 'a list option" where
  "resize_to v k = (if k < 0 then None else Some (resize v (nat k)))"

definition write_at :: "'a list \<Rightarrow> int \<Rightarrow> 'a \<Rightarrow> 'a list option" where
  "write_at v k x = (if 0 \<le> k \<and> k < int (length v) then Some (v[nat k := x]) else None)"

text \<open>A \<open>for\<close> loop over the given indices whose body may fail.\<close>

fun for_each :: "('i \<Rightarrow> 's \<Rightarrow> 's option) \<Rightarrow> 'i list \<Rightarrow> 's \<Rightarrow> 's option" where
  "for_each body [] s = Some s"
| "for_each body (i # is) s =
     (case body i s of None \<Rightarrow> None | Some s \<Rightarrow> for_each body is s)"

record laplacian_state =
  lap_rowptr :: "int list"
  lap_col :: "int list"
  lap_val :: "int list"
  lap_nnz :: nat

text \<open>
  \<open>col[nnz] = c; val[nnz] = v; ++nnz;\<close> First the state that the three statements
  leave, then the statements with their conditions: both writes inside the vectors and
  the incremented count in the range.
\<close>

definition laplacian_entry_written ::
  "int \<Rightarrow> int \<Rightarrow> laplacian_state \<Rightarrow> laplacian_state" where
  "laplacian_entry_written c v s =
     s\<lparr>lap_col := (lap_col s)[lap_nnz s := c], lap_val := (lap_val s)[lap_nnz s := v],
       lap_nnz := lap_nnz s + 1\<rparr>"

definition laplacian_entry ::
  "int \<Rightarrow> int \<Rightarrow> laplacian_state \<Rightarrow> laplacian_state option" where
  "laplacian_entry c v s =
     (if lap_nnz s < length (lap_col s) \<and> lap_nnz s < length (lap_val s)
         \<and> int (lap_nnz s) + 1 \<le> rocsparse_int_max
      then Some (laplacian_entry_written c v s) else None)"

text \<open>
  The connection with a neighbour (or with the point itself): the column
  \<open>k + idx_base\<close>, where \<open>k\<close> is \<open>idx - ndim\<close>, \<open>idx - 1\<close>, \<open>idx\<close>,
  \<open>idx + 1\<close> or \<open>idx + ndim\<close>, gets the value \<open>v\<close>.
\<close>

definition laplacian_connect ::
  "int \<Rightarrow> rocsparse_index_base \<Rightarrow> int \<Rightarrow> laplacian_state \<Rightarrow> laplacian_state option" where
  "laplacian_connect k idx_base v s =
     do {
       k \<leftarrow> rocsparse_int_of k;
       c \<leftarrow> rocsparse_int_of (k + index_base_value idx_base);
       laplacian_entry c v s
     }"

text \<open>The body of the inner loop, for the grid point \<open>(i, j)\<close>.\<close>

definition laplacian_cell ::
  "int \<Rightarrow> rocsparse_index_base \<Rightarrow> nat \<Rightarrow> nat \<Rightarrow> laplacian_state
   \<Rightarrow> laplacian_state option" where
  "laplacian_cell ndim idx_base i j s =
     do {
       t \<leftarrow> rocsparse_int_of (int i * ndim);
       idx \<leftarrow> rocsparse_int_of (t + int j);
       p \<leftarrow> rocsparse_int_of (int (lap_nnz s) + index_base_value idx_base);
       rowptr \<leftarrow> write_at (lap_rowptr s) idx p;
       s \<leftarrow> Some (s\<lparr>lap_rowptr := rowptr\<rparr>);
       s \<leftarrow> (if i \<noteq> 0 then laplacian_connect (idx - ndim) idx_base (- 1) s else Some s);
       s \<leftarrow> (if j \<noteq> 0 then laplacian_connect (idx - 1) idx_base (- 1) s else Some s);
       s \<leftarrow> laplacian_connect idx idx_base 4 s;
       last \<leftarrow> rocsparse_int_of (ndim - 1);
       s \<leftarrow> (if int j \<noteq> last then laplacian_connect (idx + 1) idx_base (- 1) s
             else Some s);
       s \<leftarrow> (if int i \<noteq> last then laplacian_connect (idx + ndim) idx_base (- 1) s
             else Some s);
       Some s
     }"

text \<open>
  The generator returns the matrix dimension; the three vectors are passed by reference
  and are returned with it. The result is \<open>None\<close> when the run leaves the defined
  behaviour.
\<close>

definition gen_2d_laplacian ::
  "int \<Rightarrow> int list \<Rightarrow> int list \<Rightarrow> int list \<Rightarrow> rocsparse_index_base
   \<Rightarrow> (int \<times> int list \<times> int list \<times> int list) option" where
  "gen_2d_laplacian ndim rowptr0 col0 val0 idx_base =
     (if ndim = 0 then Some (0, rowptr0, col0, val0)
      else
        do {
          n \<leftarrow> rocsparse_int_of (ndim * ndim);
          n5 \<leftarrow> rocsparse_int_of (n * 5);
          ndim4 \<leftarrow> rocsparse_int_of (ndim * 4);
          nnz_mat \<leftarrow> rocsparse_int_of (n5 - ndim4);
          n1 \<leftarrow> rocsparse_int_of (n + 1);
          rowptr \<leftarrow> resize_to rowptr0 n1;
          col \<leftarrow> resize_to col0 nnz_mat;
          val \<leftarrow> resize_to val0 nnz_mat;
          s \<leftarrow> Some \<lparr>lap_rowptr = rowptr, lap_col = col, lap_val = val, lap_nnz = 0\<rparr>;
          s \<leftarrow> for_each (\<lambda>i. for_each (\<lambda>j. laplacian_cell ndim idx_base i j)
                             [0..<nat ndim])
                 [0..<nat ndim] s;
          p \<leftarrow> rocsparse_int_of (int (lap_nnz s) + index_base_value idx_base);
          rowptr \<leftarrow> write_at (lap_rowptr s) n p;
          Some (n, rowptr, lap_col s, lap_val s)
        })"

text \<open>
  The entries of row \<open>r\<close> of the Laplacian as (column, value) pairs in the order in
  which the generator writes them, and all entries of the rows before row \<open>k\<close>. They
  describe the result in closed form.
\<close>

definition laplacian_row :: "int \<Rightarrow> int \<Rightarrow> nat \<Rightarrow> (int \<times> int) list" where
  "laplacian_row ndim b r =
     (let i = r div nat ndim; j = r mod nat ndim
      in (if i \<noteq> 0 then [(int r - ndim + b, - 1)] else [])
         @ (if j \<noteq> 0 then [(int r - 1 + b, - 1)] else [])
         @ [(int r + b, 4)]
         @ (if int j \<noteq> ndim - 1 then [(int r + 1 + b, - 1)] else [])
         @ (if int i \<noteq> ndim - 1 then [(int r + ndim + b, - 1)] else []))"

definition laplacian_rows :: "int \<Rightarrow> int \<Rightarrow> nat \<Rightarrow> (int \<times> int) list" where
  "laplacian_rows ndim b k = concat (map (laplacian_row ndim b) [0..<k])"

definition laplacian_inv :: "int \<Rightarrow> int \<Rightarrow> nat \<Rightarrow> laplacian_state \<Rightarrow> bool" where
  "laplacian_inv ndim b k s \<longleftrightarrow>
     length (lap_rowptr s) = nat ndim * nat ndim + 1
     \<and> length (lap_col s) = nat (ndim * ndim * 5 - ndim * 4)
     \<and> length (lap_val s) = nat (ndim * ndim * 5 - ndim * 4)
     \<and> lap_nnz s = length (laplacian_rows ndim b k)
     \<and> take (lap_nnz s) (lap_col s) = map fst (laplacian_rows ndim b k)
     \<and> take (lap_nnz s) (lap_val s) = map snd (laplacian_rows ndim b k)
     \<and> take k (lap_rowptr s)
         = map (\<lambda>r. int (length (laplacian_rows ndim b r)) + b) [0..<k]"

subsection \<open>The random CSR matrix\<close>

text \<open>
  \<open>rand()\<close> is modelled by a random source: the list of the values, none negative, that
  the successive calls return. A generator takes the source and gives back what is left
  of it. The result \<open>None\<close> stands for a run that does not return normally: the source
  is used up before a loop has finished (the sampling loop of
  \<open>rocsparse_init_index\<close> ends only when enough fresh values have been drawn, so with
  an endless source it need not end at all), or the run leaves the defined behaviour of
  C++ (a vector of negative size, a remainder by zero, a write outside a vector, a sort
  of a range that ends before it starts). The remainder \<open>a % b\<close> of C++ truncates
  towards zero. The sizes \<open>nrow\<close>, \<open>ncol\<close> and \<open>nnz\<close> are \<open>rocsparse_int\<close>
  values; the generator only subtracts one from \<open>ncol\<close> and \<open>nnz\<close>, takes
  remainders, which lie between zero and the divisor, and subtracts row pointers, which
  lie between zero and \<open>nnz\<close> when the vector holds \<open>nrow + 1\<close> of them, so that
  for \<open>nnz \<ge> 2\<close> no value leaves the range as long as \<open>ncol - 1\<close> does not, and a
  negative \<open>ncol - 1\<close> is a vector of negative size. They are kept as integers.
\<close>

text \<open>
  \<open>std::sort(x, x + k)\<close> on the part of a vector that starts at position \<open>x\<close>,
  for \<open>k\<close> not negative; a range that ends before it starts is no range, and the call
  has no defined behaviour.
\<close>

definition sort_range :: "int list \<Rightarrow> nat \<Rightarrow> nat \<Rightarrow> int list" where
  "sort_range v x k = take x v @ sort (take k (drop x v)) @ drop (x + k) v"

text \<open>
  The sampling loop of \<open>rocsparse_init_index\<close>; \<open>x\<close> is the position in \<open>col\<close>
  that the pointer argument points to.
\<close>

fun rocsparse_init_index_loop ::
  "int \<Rightarrow> int \<Rightarrow> int \<Rightarrow> int \<Rightarrow> bool list \<Rightarrow> nat \<Rightarrow> int list \<Rightarrow> nat list
   \<Rightarrow> (int list \<times> nat list) option" where
  "rocsparse_init_index_loop x count start end check num v [] =
     (if int num < count then None else Some (v, []))"
| "rocsparse_init_index_loop x count start end check num v (r # rands) =
     (if int num < count then
        (if end - start = 0 then None
         else
           let val = start + int r smod (end - start)
           in if \<not> check ! nat (val - start) then
                (if 0 \<le> x + int num \<and> x + int num < int (length v) then
                   rocsparse_init_index_loop x count start end
                     (check[nat (val - start) := True]) (num + 1)
                     (v[nat (x + int num) := val]) rands
                 else None)
              else rocsparse_init_index_loop x count start end check num v rands)
      else Some (v, r # rands))"

definition rocsparse_init_index ::
  "int \<Rightarrow> int \<Rightarrow> int \<Rightarrow> int \<Rightarrow> int list \<Rightarrow> nat list \<Rightarrow> (int list \<times> nat list) option" where
  "rocsparse_init_index x count start end v rands =
     (if end - start < 0 then None
      else
        case rocsparse_init_index_loop x count start end
               (replicate (nat (end - start)) False) 0 v rands of
          None \<Rightarrow> None
        | Some (v, rands) \<Rightarrow>
            if count < 0 then None else Some (sort_range v (nat x) (nat count), rands))"

text \<open>
  An endless random source gives the value of every call of \<open>rand()\<close> by its position
  in the run; \<open>draws s p l\<close> are the \<open>l\<close> values from position \<open>p\<close> on. The
  source is fair for the modulus \<open>K\<close> when every remainder below \<open>K\<close> keeps turning
  up: after every position there is a call whose value has that remainder. The counting
  source, whose call number \<open>q\<close> returns \<open>q\<close>, is fair for every modulus.
\<close>

definition draws :: "(nat \<Rightarrow> nat) \<Rightarrow> nat \<Rightarrow> nat \<Rightarrow> nat list" where
  "draws s p l = map s [p..<p + l]"

definition fair_source :: "(nat \<Rightarrow> nat) \<Rightarrow> nat \<Rightarrow> bool" where
  "fair_source s K \<longleftrightarrow> (\<forall>p. \<forall>v < K. \<exists>q \<ge> p. s q mod K = v)"

definition counting_source :: "nat \<Rightarrow> nat" where
  "counting_source q = q"

text \<open>The three loops of \<open>rocsparse_init_csr\<close>, over the indices they run through.\<close>

fun init_csr_row_offsets ::
  "int \<Rightarrow> nat list \<Rightarrow> int list \<Rightarrow> nat list \<Rightarrow> (int list \<times> nat list) option" where
  "init_csr_row_offsets nnz [] ptr rands = Some (ptr, rands)"
| "init_csr_row_offsets nnz (i # is) ptr [] = None"
| "init_csr_row_offsets nnz (i # is) ptr (r # rands) =
     (if nnz - 1 = 0 then None
      else init_csr_row_offsets nnz is (ptr[i := int r smod (nnz - 1) + 1]) rands)"

fun init_csr_columns ::
  "int \<Rightarrow> int list \<Rightarrow> nat list \<Rightarrow> int list \<Rightarrow> nat list
   \<Rightarrow> (int list \<times> nat list) option" where
  "init_csr_columns ncol ptr [] v rands = Some (v, rands)"
| "init_csr_columns ncol ptr (i # is) v rands =
     (case rocsparse_init_index (ptr ! i) (ptr ! (i + 1) - ptr ! i) 0 (ncol - 1) v rands of
        None \<Rightarrow> None
      | Some (v, rands) \<Rightarrow>
          init_csr_columns ncol ptr is
            (sort_range v (nat (ptr ! i)) (nat (ptr ! (i + 1) - ptr ! i))) rands)"

fun init_csr_values ::
  "nat list \<Rightarrow> int list \<Rightarrow> nat list \<Rightarrow> (int list \<times> nat list) option" where
  "init_csr_values [] v rands = Some (v, rands)"
| "init_csr_values (i # is) v [] = None"
| "init_csr_values (i # is) v (r # rands) =
     (if i < length v then init_csr_values is (v[i := int (r mod 10 + 1)]) rands
      else None)"

definition rocsparse_init_csr ::
  "int list \<Rightarrow> int list \<Rightarrow> int list \<Rightarrow> int \<Rightarrow> int \<Rightarrow> int \<Rightarrow> nat list
   \<Rightarrow> (int list \<times> int list \<times> int list \<times> nat list) option" where
  "rocsparse_init_csr ptr col_ind val_arr nrow ncol nnz rands =
     (if \<not> (0 \<le> nrow \<and> nat nrow < length ptr) then None
      else
        let ptr = list_update ptr 0 0;
            ptr = list_update ptr (nat nrow) nnz
        in case init_csr_row_offsets nnz [1..<nat nrow] ptr rands of
             None \<Rightarrow> None
           | Some (ptr, rands) \<Rightarrow>
               (let ptr = sort ptr
                in (case init_csr_columns ncol ptr [0..<nat nrow] col_ind rands of
                      None \<Rightarrow> None
                    | Some (col_ind, rands) \<Rightarrow>
                        (case init_csr_values [0..<nat nnz] val_arr rands of
                           None \<Rightarrow> None
                         | Some (val_arr, rands) \<Rightarrow>
                             Some (ptr, col_ind, val_arr, rands)))))"

text \<open>
  The part of a CSR array (column indices or values) that belongs to row \<open>r\<close>: the
  positions from \<open>rowptr[r] - base\<close> up to, and excluding, \<open>rowptr[r + 1] - base\<close>.
\<close>

definition csr_row :: "int list \<Rightarrow> 'a list \<Rightarrow> int \<Rightarrow> nat \<Rightarrow> 'a list" where
  "csr_row row_ptr xs b r
     = take (nat (row_ptr ! Suc r - row_ptr ! r)) (drop (nat (row_ptr ! r - b)) xs)"

section \<open>The level-schedule builder\<close>

text \<open>
  Modelled from the spec: the builder of the level schedule (the analysis of the CSR
  triangular solve) is not among the sources, which hold the COO front end only. The
  model follows sections 3 and 4.1 of the spec: a matrix view with row pointers, column
  indices, values, index base, fill mode and diagonal type; for every row the level
  \<open>1 + max\<close> of the levels of the columns of the row that come strictly before it in
  solve order (\<open>j < i\<close> for lower, \<open>j > i\<close> for upper fill mode), and level 1 for a
  row without such a column. Rows are visited in solve order, so that the level of a
  dependency is known when it is read. Entries on the other side of the diagonal are
  ignored, and a column index that is no row of the matrix is no dependency. Rows of the
  same level are listed in ascending order.
\<close>

record 'a SparseMatrixView =
  view_row_count :: nat
  view_col_count :: nat
  view_nnz :: nat
  view_row_ptr :: "int list"
  view_col_ind :: "int list"
  view_values :: "'a list"
  view_index_base :: rocsparse_index_base
  view_fill_mode :: rocsparse_fill_mode
  view_diag_type :: rocsparse_diag_type

record LevelSchedule =
  level_count :: nat
  level_of :: "nat list"
  rows_sorted_by_level :: "nat list"

fun before_in_solve_order :: "rocsparse_fill_mode \<Rightarrow> nat \<Rightarrow> nat \<Rightarrow> bool" where
  "before_in_solve_order rocsparse_fill_mode_lower j i = (j < i)"
| "before_in_solve_order rocsparse_fill_mode_upper j i = (j > i)"

definition row_dependencies :: "'a SparseMatrixView \<Rightarrow> nat \<Rightarrow> nat list" where
  "row_dependencies A i =
     (let b = index_base_value (view_index_base A)
      in [nat (c - b). c \<leftarrow> csr_row (view_row_ptr A) (view_col_ind A) b i,
            b \<le> c, nat (c - b) < view_row_count A,
            before_in_solve_order (view_fill_mode A) (nat (c - b)) i])"

definition solve_order :: "'a SparseMatrixView \<Rightarrow> nat list" where
  "solve_order A =
     (case view_fill_mode A of
        rocsparse_fill_mode_lower \<Rightarrow> [0..<view_row_count A]
      | rocsparse_fill_mode_upper \<Rightarrow> rev [0..<view_row_count A])"

definition row_level :: "'a SparseMatrixView \<Rightarrow> nat list \<Rightarrow> nat \<Rightarrow> nat" where
  "row_level A levels i =
     (if row_dependencies A i = [] then 1
      else 1 + Max (set (map (\<lambda>j. levels ! j) (row_dependencies A i))))"

fun assign_levels :: "'a SparseMatrixView \<Rightarrow> nat list \<Rightarrow> nat list \<Rightarrow> nat list" where
  "assign_levels A [] levels = levels"
| "assign_levels A (i # rows) levels = assign_levels A rows (levels[i := row_level A levels i])"

definition build_level_schedule :: "'a SparseMatrixView \<Rightarrow> LevelSchedule" where
  "build_level_schedule A =
     (let levels = assign_levels A (solve_order A) (replicate (view_row_count A) 0)
      in \<lparr>level_count = (if levels = [] then 0 else Max (set levels)),
          level_of = levels,
          rows_sorted_by_level = sort_key (\<lambda>i. levels ! i) [0..<view_row_count A]\<rparr>)"

text \<open>
  The matrix of the first scenario of the spec: lower triangular, three rows, row 1
  depending on row 0 and row 2 on row 1.
\<close>

definition scenario_lower :: "int SparseMatrixView" where
  "scenario_lower =
     \<lparr>view_row_count = 3, view_col_count = 3, view_nnz = 5, view_row_ptr = [0, 1, 3, 5],
      view_col_ind = [0, 0, 1, 1, 2], view_values = [2, 3, 4, 1, 5],
      view_index_base = rocsparse_index_base_zero,
      view_fill_mode = rocsparse_fill_mode_lower,
      view_diag_type = rocsparse_diag_type_non_unit\<rparr>"

section \<open>Properties of the COO analysis routine\<close>

subsection \<open>Casts between the index widths\<close>

lemma sint_ucast_32:
  "- (2^31) \<le> sint (n :: 64 word) \<Longrightarrow> sint n < 2^31 \<Longrightarrow> sint (ucast n :: 32 word) = sint n"
proof -
  assume a: "- (2^31) \<le> sint n" "sint n < 2^31"
  have "(ucast n :: 32 word) = scast n"
    by (simp add: down_cast_same is_down)
  also have "\<dots> = word_of_int (sint n)" by (rule scast_eq)
  finally have e: "(ucast n :: 32 word) = word_of_int (sint n)" .
  have "sint (word_of_int (sint n) :: 32 word) = signed_take_bit (LENGTH(32) - 1) (sint n)"
    by (rule sint_sbintrunc')
  also have "\<dots> = sint n" using a by (simp add: signed_take_bit_int_eq_self)
  finally show ?thesis by (simp only: e)
qed

lemma scast_ucast_32:
  "- (2^31) \<le> sint (n :: 64 word) \<Longrightarrow> sint n < 2^31 \<Longrightarrow> (scast (ucast n :: 32 word) :: 64 word) = n"
proof -
  assume a: "- (2^31) \<le> sint n" "sint n < 2^31"
  have "(scast (ucast n :: 32 word) :: 64 word) = word_of_int (sint (ucast n :: 32 word))"
    by (rule scast_eq)
  also have "\<dots> = word_of_int (sint n)" using a by (simp only: sint_ucast_32)
  also have "\<dots> = n" by simp
  finally show ?thesis .
qed

lemma sint_scast_up:
  "LENGTH('i::len) \<le> 64 \<Longrightarrow> sint (scast (m :: 'i word) :: 64 word) = sint m"
  by (simp add: sint_up_scast is_up)

lemma CHECKARG_SIZE_scast:
  "LENGTH('i::len) \<le> 64 \<Longrightarrow> CHECKARG_SIZE (scast (m :: 'i word)) \<longleftrightarrow> sint m < 0"
  by (simp add: CHECKARG_SIZE_def word_sless_alt sint_scast_up)

lemma checkarg_continueD:
  assumes "rocsparse_coosm_analysis_checkarg handle trans_A trans_B m nrhs nnz alpha descr
             coo_val coo_row_ind coo_col_ind B ldb info analysis solve temp_buffer
           = rocsparse_status_continue"
  shows "\<not> CHECKARG_SIZE m \<and> \<not> CHECKARG_SIZE nrhs \<and> \<not> CHECKARG_SIZE nnz \<and> (\<exists>d. descr = Some d)"
  using assms
  by (simp add: rocsparse_coosm_analysis_checkarg_def Let_def
           split: if_splits option.splits)

lemma status_closed_iff: "st \<in> closed_status_set \<longleftrightarrow> st \<noteq> rocsparse_status_continue"
  by (cases st) (simp_all add: closed_status_set_def)

lemma checkarg_zero_dimension:
  assumes "m = 0 \<or> nrhs = 0"
  shows "rocsparse_coosm_analysis_checkarg handle trans_A trans_B m nrhs nnz alpha descr
           coo_val coo_row_ind coo_col_ind B ldb info analysis solve temp_buffer
         \<noteq> rocsparse_status_continue"
  using assms
  by (auto simp add: rocsparse_coosm_analysis_checkarg_def Let_def
        rocsparse_coosm_analysis_quickreturn_def
           split: if_splits option.splits)

lemma template_no_continue:
  "rocsparse_coosm_analysis_checkarg handle trans_A trans_B (scast m) (scast nrhs) nnz alpha
     descr coo_val coo_row_ind coo_col_ind B ldb info analysis solve temp_buffer = st \<Longrightarrow>
   st \<noteq> rocsparse_status_continue \<Longrightarrow>
   rocsparse_coosm_analysis_template run handle trans_A trans_B m nrhs nnz alpha descr
     coo_val coo_row_ind coo_col_ind B ldb info analysis solve temp_buffer s = (Some st, s)"
  by (simp add: rocsparse_coosm_analysis_template_def)

text \<open>The equations that evaluate the argument checks on concrete arguments.\<close>

lemmas checkarg_eval =
  rocsparse_coosm_analysis_template_def rocsparse_coosm_analysis_checkarg_def
  rocsparse_coosm_analysis_quickreturn_def nullptr_def operation_is_invalid_def
  analysis_policy_is_invalid_def solve_policy_is_invalid_def CHECKARG_SIZE_def
  CHECKARG_POINTER_def CHECKARG_ARRAY_def word_sless_alt Let_def

subsection \<open>The outcome of each check\<close>

lemma checkarg_handle:
  "handle = nullptr \<Longrightarrow>
   rocsparse_coosm_analysis_checkarg handle trans_A trans_B m nrhs nnz alpha descr coo_val
     coo_row_ind coo_col_ind B ldb info analysis solve temp_buffer
   = rocsparse_status_invalid_handle"
  by (simp add: rocsparse_coosm_analysis_checkarg_def)

lemma checkarg_operation:
  "handle \<noteq> nullptr \<Longrightarrow> operation_is_invalid trans_A \<or> operation_is_invalid trans_B \<Longrightarrow>
   rocsparse_coosm_analysis_checkarg handle trans_A trans_B m nrhs nnz alpha descr coo_val
     coo_row_ind coo_col_ind B ldb info analysis solve temp_buffer
   = rocsparse_status_invalid_value"
  by (auto simp add: rocsparse_coosm_analysis_checkarg_def)

lemma checkarg_size:
  "handle \<noteq> nullptr \<Longrightarrow> \<not> operation_is_invalid trans_A \<Longrightarrow> \<not> operation_is_invalid trans_B \<Longrightarrow>
   m <s 0 \<or> nrhs <s 0 \<or> nnz <s 0 \<Longrightarrow>
   rocsparse_coosm_analysis_checkarg handle trans_A trans_B m nrhs nnz alpha descr coo_val
     coo_row_ind coo_col_ind B ldb info analysis solve temp_buffer
   = rocsparse_status_invalid_size"
  by (auto simp add: rocsparse_coosm_analysis_checkarg_def CHECKARG_SIZE_def)

lemma checkarg_descr_null:
  "handle \<noteq> nullptr \<Longrightarrow> \<not> operation_is_invalid trans_A \<Longrightarrow> \<not> operation_is_invalid trans_B \<Longrightarrow>
   \<not> m <s 0 \<Longrightarrow> \<not> nrhs <s 0 \<Longrightarrow> \<not> nnz <s 0 \<Longrightarrow> descr = None \<Longrightarrow>
   rocsparse_coosm_analysis_checkarg handle trans_A trans_B m nrhs nnz alpha descr coo_val
     coo_row_ind coo_col_ind B ldb info analysis solve temp_buffer
   = rocsparse_status_invalid_pointer"
  by (simp add: rocsparse_coosm_analysis_checkarg_def CHECKARG_SIZE_def)

lemma checkarg_descr_unsupported:
  "handle \<noteq> nullptr \<Longrightarrow> \<not> operation_is_invalid trans_A \<Longrightarrow> \<not> operation_is_invalid trans_B \<Longrightarrow>
   \<not> m <s 0 \<Longrightarrow> \<not> nrhs <s 0 \<Longrightarrow> \<not> nnz <s 0 \<Longrightarrow> descr = Some d \<Longrightarrow>
   descr_type d \<noteq> rocsparse_matrix_type_general
     \<or> descr_storage_mode d \<noteq> rocsparse_storage_mode_sorted \<Longrightarrow>
   rocsparse_coosm_analysis_checkarg handle trans_A trans_B m nrhs nnz alpha descr coo_val
     coo_row_ind coo_col_ind B ldb info analysis solve temp_buffer
   = rocsparse_status_not_implemented"
  by (auto simp add: rocsparse_coosm_analysis_checkarg_def CHECKARG_SIZE_def)

lemma checkarg_info_null:
  "handle \<noteq> nullptr \<Longrightarrow> \<not> operation_is_invalid trans_A \<Longrightarrow> \<not> operation_is_invalid trans_B \<Longrightarrow>
   \<not> m <s 0 \<Longrightarrow> \<not> nrhs <s 0 \<Longrightarrow> \<not> nnz <s 0 \<Longrightarrow> descr = Some d \<Longrightarrow>
   descr_type d = rocsparse_matrix_type_general \<Longrightarrow>
   descr_storage_mode d = rocsparse_storage_mode_sorted \<Longrightarrow> info = nullptr \<Longrightarrow>
   rocsparse_coosm_analysis_checkarg handle trans_A trans_B m nrhs nnz alpha descr coo_val
     coo_row_ind coo_col_ind B ldb info analysis solve temp_buffer
   = rocsparse_status_invalid_pointer"
  by (simp add: rocsparse_coosm_analysis_checkarg_def CHECKARG_SIZE_def CHECKARG_POINTER_def)

lemma checkarg_policy:
  "handle \<noteq> nullptr \<Longrightarrow> \<not> operation_is_invalid trans_A \<Longrightarrow> \<not> operation_is_invalid trans_B \<Longrightarrow>
   \<not> m <s 0 \<Longrightarrow> \<not> nrhs <s 0 \<Longrightarrow> \<not> nnz <s 0 \<Longrightarrow> descr = Some d \<Longrightarrow>
   descr_type d = rocsparse_matrix_type_general \<Longrightarrow>
   descr_storage_mode d = rocsparse_storage_mode_sorted \<Longrightarrow> info \<noteq> nullptr \<Longrightarrow>
   analysis_policy_is_invalid analysis \<or> solve_policy_is_invalid solve \<Longrightarrow>
   rocsparse_coosm_analysis_checkarg handle trans_A trans_B m nrhs nnz alpha descr coo_val
     coo_row_ind coo_col_ind B ldb info analysis solve temp_buffer
   = rocsparse_status_invalid_value"
  by (auto simp add: rocsparse_coosm_analysis_checkarg_def CHECKARG_SIZE_def CHECKARG_POINTER_def)

lemma checkarg_data_pointer:
  "handle \<noteq> nullptr \<Longrightarrow> \<not> operation_is_invalid trans_A \<Longrightarrow> \<not> operation_is_invalid trans_B \<Longrightarrow>
   \<not> m <s 0 \<Longrightarrow> \<not> nrhs <s 0 \<Longrightarrow> \<not> nnz <s 0 \<Longrightarrow> descr = Some d \<Longrightarrow>
   descr_type d = rocsparse_matrix_type_general \<Longrightarrow>
   descr_storage_mode d = rocsparse_storage_mode_sorted \<Longrightarrow> info \<noteq> nullptr \<Longrightarrow>
   \<not> analysis_policy_is_invalid analysis \<Longrightarrow> \<not> solve_policy_is_invalid solve \<Longrightarrow>
   m \<noteq> 0 \<Longrightarrow> nrhs \<noteq> 0 \<Longrightarrow>
   alpha = nullptr \<or> (0 <s nnz \<and> (coo_val = nullptr \<or> coo_row_ind = nullptr
      \<or> coo_col_ind = nullptr)) \<or> B = nullptr \<or> temp_buffer = nullptr \<Longrightarrow>
   rocsparse_coosm_analysis_checkarg handle trans_A trans_B m nrhs nnz alpha descr coo_val
     coo_row_ind coo_col_ind B ldb info analysis solve temp_buffer
   = rocsparse_status_invalid_pointer"
  by (auto simp add: rocsparse_coosm_analysis_checkarg_def CHECKARG_SIZE_def
        CHECKARG_POINTER_def CHECKARG_ARRAY_def rocsparse_coosm_analysis_quickreturn_def)

lemma checkarg_invalid_handleD:
  "rocsparse_coosm_analysis_checkarg handle trans_A trans_B m nrhs nnz alpha descr coo_val
     coo_row_ind coo_col_ind B ldb info analysis solve temp_buffer
   = rocsparse_status_invalid_handle \<Longrightarrow> handle = nullptr"
  by (simp add: rocsparse_coosm_analysis_checkarg_def rocsparse_coosm_analysis_quickreturn_def Let_def
        split: if_splits option.splits)

lemma checkarg_invalid_valueD:
  "rocsparse_coosm_analysis_checkarg handle trans_A trans_B m nrhs nnz alpha descr coo_val
     coo_row_ind coo_col_ind B ldb info analysis solve temp_buffer
   = rocsparse_status_invalid_value \<Longrightarrow>
   operation_is_invalid trans_A \<or> operation_is_invalid trans_B
   \<or> analysis_policy_is_invalid analysis \<or> solve_policy_is_invalid solve"
  by (simp add: rocsparse_coosm_analysis_checkarg_def rocsparse_coosm_analysis_quickreturn_def Let_def
        split: if_splits option.splits)

lemma checkarg_invalid_sizeD:
  "rocsparse_coosm_analysis_checkarg handle trans_A trans_B m nrhs nnz alpha descr coo_val
     coo_row_ind coo_col_ind B ldb info analysis solve temp_buffer
   = rocsparse_status_invalid_size \<Longrightarrow> m <s 0 \<or> nrhs <s 0 \<or> nnz <s 0"
  by (simp add: rocsparse_coosm_analysis_checkarg_def rocsparse_coosm_analysis_quickreturn_def Let_def CHECKARG_SIZE_def
        split: if_splits option.splits)

lemma checkarg_not_implementedD:
  "rocsparse_coosm_analysis_checkarg handle trans_A trans_B m nrhs nnz alpha descr coo_val
     coo_row_ind coo_col_ind B ldb info analysis solve temp_buffer
   = rocsparse_status_not_implemented \<Longrightarrow>
   \<exists>d. descr = Some d \<and> (descr_type d \<noteq> rocsparse_matrix_type_general
      \<or> descr_storage_mode d \<noteq> rocsparse_storage_mode_sorted)"
  by (simp add: rocsparse_coosm_analysis_checkarg_def rocsparse_coosm_analysis_quickreturn_def Let_def
        split: if_splits option.splits)

lemma checkarg_invalid_pointerD:
  "rocsparse_coosm_analysis_checkarg handle trans_A trans_B m nrhs nnz alpha descr coo_val
     coo_row_ind coo_col_ind B ldb info analysis solve temp_buffer
   = rocsparse_status_invalid_pointer \<Longrightarrow>
   descr = None \<or> info = nullptr \<or> alpha = nullptr \<or> B = nullptr \<or> temp_buffer = nullptr
   \<or> (0 <s nnz \<and> (coo_val = nullptr \<or> coo_row_ind = nullptr \<or> coo_col_ind = nullptr))"
  by (simp add: rocsparse_coosm_analysis_checkarg_def rocsparse_coosm_analysis_quickreturn_def Let_def CHECKARG_POINTER_def
        CHECKARG_ARRAY_def split: if_splits option.splits)

lemma checkarg_range:
  "rocsparse_coosm_analysis_checkarg handle trans_A trans_B m nrhs nnz alpha descr coo_val
     coo_row_ind coo_col_ind B ldb info analysis solve temp_buffer
   \<notin> {rocsparse_status_memory_error, rocsparse_status_internal_error}"
  by (simp add: rocsparse_coosm_analysis_checkarg_def rocsparse_coosm_analysis_quickreturn_def Let_def split: option.splits)

lemma checkarg_zero_dimension_independent:
  assumes "m = 0 \<or> nrhs = 0"
  shows "rocsparse_coosm_analysis_checkarg handle trans_A trans_B m nrhs nnz alpha descr
           coo_val coo_row_ind coo_col_ind B ldb info analysis solve temp_buffer
         = rocsparse_coosm_analysis_checkarg handle trans_A trans_B m nrhs nnz alpha' descr
             coo_val' coo_row_ind' coo_col_ind' B' ldb' info analysis solve temp_buffer'"
  using assms
  by (auto simp add: rocsparse_coosm_analysis_checkarg_def Let_def
        rocsparse_coosm_analysis_quickreturn_def split: option.splits)

lemma checkarg_zero_dimension_success:
  "m = 0 \<or> nrhs = 0 \<Longrightarrow> handle \<noteq> nullptr \<Longrightarrow>
   \<not> operation_is_invalid trans_A \<Longrightarrow> \<not> operation_is_invalid trans_B \<Longrightarrow>
   \<not> m <s 0 \<Longrightarrow> \<not> nrhs <s 0 \<Longrightarrow> \<not> nnz <s 0 \<Longrightarrow> descr = Some d \<Longrightarrow>
   descr_type d = rocsparse_matrix_type_general \<Longrightarrow>
   descr_storage_mode d = rocsparse_storage_mode_sorted \<Longrightarrow> info \<noteq> nullptr \<Longrightarrow>
   \<not> analysis_policy_is_invalid analysis \<Longrightarrow> \<not> solve_policy_is_invalid solve \<Longrightarrow>
   rocsparse_coosm_analysis_checkarg handle trans_A trans_B m nrhs nnz alpha descr coo_val
     coo_row_ind coo_col_ind B ldb info analysis solve temp_buffer
   = rocsparse_status_success"
  by (auto simp add: rocsparse_coosm_analysis_checkarg_def CHECKARG_SIZE_def
        CHECKARG_POINTER_def rocsparse_coosm_analysis_quickreturn_def)

subsection \<open>Quick return\<close>

text \<open>
  C1 (as amended). The quick-return check is not the first stage: it runs after the
  checks of the handle, the two operations, the three sizes, the descriptor (non-null,
  general type, sorted storage), the info object and the two policies, and before the
  checks of alpha, the COO arrays, B and the temp buffer. When a dimension is zero
  (\<open>m = 0\<close> or \<open>nrhs = 0\<close>) the routine returns with the state it was given, and
  its status is one and the same for every behaviour of the collaborators and every value
  of alpha, the COO arrays, B, \<open>ldb\<close> and the temp buffer. That status is the error of
  the first of the earlier checks that fails, in the order of the source: invalid-handle
  for a null handle, then invalid-value for an invalid operation, then invalid-size for a
  negative size, then invalid-pointer for a null descriptor, then not-implemented for a
  descriptor of non-general type or non-sorted storage, then invalid-pointer for a null
  info, then invalid-value for an invalid policy; and it is success when all of them
  pass.
\<close>

theorem zero_dimension_returns_after_leading_checks:
  fixes m nrhs :: "'i::len word"
  assumes "m = 0 \<or> nrhs = 0"
  shows "\<exists>st.
     (\<forall>(run :: 'i word collaborator_call \<Rightarrow> 's \<Rightarrow> rocsparse_status \<times> 's)
         alpha coo_val coo_row_ind coo_col_ind B ldb temp_buffer s.
         rocsparse_coosm_analysis_template run handle trans_A trans_B m nrhs nnz alpha
           descr coo_val coo_row_ind coo_col_ind B ldb info analysis solve temp_buffer s
         = (Some st, s))
     \<and> (handle = nullptr \<longrightarrow> st = rocsparse_status_invalid_handle)
     \<and> (handle \<noteq> nullptr \<and> (operation_is_invalid trans_A \<or> operation_is_invalid trans_B)
          \<longrightarrow> st = rocsparse_status_invalid_value)
     \<and> (handle \<noteq> nullptr \<and> \<not> operation_is_invalid trans_A \<and> \<not> operation_is_invalid trans_B
          \<and> (CHECKARG_SIZE (scast m) \<or> CHECKARG_SIZE (scast nrhs) \<or> CHECKARG_SIZE nnz)
          \<longrightarrow> st = rocsparse_status_invalid_size)
     \<and> (handle \<noteq> nullptr \<and> \<not> operation_is_invalid trans_A \<and> \<not> operation_is_invalid trans_B
          \<and> \<not> CHECKARG_SIZE (scast m) \<and> \<not> CHECKARG_SIZE (scast nrhs)
          \<and> \<not> CHECKARG_SIZE nnz \<longrightarrow>
            (descr = None \<longrightarrow> st = rocsparse_status_invalid_pointer)
          \<and> (\<forall>d. descr = Some d \<longrightarrow>
                (descr_type d \<noteq> rocsparse_matrix_type_general
                   \<or> descr_storage_mode d \<noteq> rocsparse_storage_mode_sorted
                 \<longrightarrow> st = rocsparse_status_not_implemented)
              \<and> (descr_type d = rocsparse_matrix_type_general
                   \<and> descr_storage_mode d = rocsparse_storage_mode_sorted \<longrightarrow>
                    (info = nullptr \<longrightarrow> st = rocsparse_status_invalid_pointer)
                  \<and> (info \<noteq> nullptr
                       \<and> (analysis_policy_is_invalid analysis
                           \<or> solve_policy_is_invalid solve)
                     \<longrightarrow> st = rocsparse_status_invalid_value)
                  \<and> (info \<noteq> nullptr \<and> \<not> analysis_policy_is_invalid analysis
                       \<and> \<not> solve_policy_is_invalid solve
                     \<longrightarrow> st = rocsparse_status_success))))"
proof -
  define st where "st = rocsparse_coosm_analysis_checkarg handle trans_A trans_B (scast m)
                          (scast nrhs) nnz nullptr descr nullptr nullptr nullptr nullptr 0
                          info analysis solve nullptr"
  from assms have z: "(scast m :: int64_t) = 0 \<or> (scast nrhs :: int64_t) = 0" by auto
  have nc: "st \<noteq> rocsparse_status_continue"
    unfolding st_def using z by (rule checkarg_zero_dimension)
  have t: "\<forall>(run :: 'i word collaborator_call \<Rightarrow> 's \<Rightarrow> rocsparse_status \<times> 's)
         alpha coo_val coo_row_ind coo_col_ind B ldb temp_buffer s.
         rocsparse_coosm_analysis_template run handle trans_A trans_B m nrhs nnz alpha
           descr coo_val coo_row_ind coo_col_ind B ldb info analysis solve temp_buffer s
         = (Some st, s)"
  proof (intro allI)
    fix run :: "'i word collaborator_call \<Rightarrow> 's \<Rightarrow> rocsparse_status \<times> 's"
    fix alpha coo_val coo_row_ind coo_col_ind B ldb temp_buffer s
    have "rocsparse_coosm_analysis_checkarg handle trans_A trans_B (scast m) (scast nrhs)
            nnz alpha descr coo_val coo_row_ind coo_col_ind B ldb info analysis solve
            temp_buffer = st"
      unfolding st_def using z by (rule checkarg_zero_dimension_independent)
    then show "rocsparse_coosm_analysis_template run handle trans_A trans_B m nrhs nnz alpha
           descr coo_val coo_row_ind coo_col_ind B ldb info analysis solve temp_buffer s
         = (Some st, s)"
      using nc by (rule template_no_continue)
  qed
  have f1: "handle = nullptr \<longrightarrow> st = rocsparse_status_invalid_handle"
    unfolding st_def by (simp add: checkarg_handle)
  have f2: "handle \<noteq> nullptr \<and> (operation_is_invalid trans_A \<or> operation_is_invalid trans_B)
          \<longrightarrow> st = rocsparse_status_invalid_value"
    unfolding st_def by (simp add: checkarg_operation)
  have f3: "handle \<noteq> nullptr \<and> \<not> operation_is_invalid trans_A \<and> \<not> operation_is_invalid trans_B
          \<and> (CHECKARG_SIZE (scast m) \<or> CHECKARG_SIZE (scast nrhs) \<or> CHECKARG_SIZE nnz)
          \<longrightarrow> st = rocsparse_status_invalid_size"
    unfolding st_def CHECKARG_SIZE_def by (simp add: checkarg_size)
  have f4: "handle \<noteq> nullptr \<and> \<not> operation_is_invalid trans_A \<and> \<not> operation_is_invalid trans_B
          \<and> \<not> CHECKARG_SIZE (scast m) \<and> \<not> CHECKARG_SIZE (scast nrhs)
          \<and> \<not> CHECKARG_SIZE nnz \<longrightarrow>
            (descr = None \<longrightarrow> st = rocsparse_status_invalid_pointer)
          \<and> (\<forall>d. descr = Some d \<longrightarrow>
                (descr_type d \<noteq> rocsparse_matrix_type_general
                   \<or> descr_storage_mode d \<noteq> rocsparse_storage_mode_sorted
                 \<longrightarrow> st = rocsparse_status_not_implemented)
              \<and> (descr_type d = rocsparse_matrix_type_general
                   \<and> descr_storage_mode d = rocsparse_storage_mode_sorted \<longrightarrow>
                    (info = nullptr \<longrightarrow> st = rocsparse_status_invalid_pointer)
                  \<and> (info \<noteq> nullptr
                       \<and> (analysis_policy_is_invalid analysis
                           \<or> solve_policy_is_invalid solve)
                     \<longrightarrow> st = rocsparse_status_invalid_value)
                  \<and> (info \<noteq> nullptr \<and> \<not> analysis_policy_is_invalid analysis
                       \<and> \<not> solve_policy_is_invalid solve
                     \<longrightarrow> st = rocsparse_status_success)))"
    unfolding st_def CHECKARG_SIZE_def
  proof (intro impI conjI allI, goal_cases)
    case 1 then show ?case by (simp add: checkarg_descr_null)
  next
    case (2 d) then show ?case by (simp add: checkarg_descr_unsupported)
  next
    case (3 d) then show ?case by (simp add: checkarg_info_null)
  next
    case (4 d) then show ?case by (simp add: checkarg_policy)
  next
    case (5 d) with z show ?case by (intro checkarg_zero_dimension_success [where d = d]) auto
  qed
  show ?thesis by (rule exI [of _ st]) (intro conjI t f1 f2 f3 f4)
qed

theorem zero_dimension_returns_after_leading_checks_witness:
  "((0::32 word) = 0 \<or> (1::32 word) = 0)
   \<and> rocsparse_coosm_analysis_template (record_call answer_success) 1
       rocsparse_operation_none rocsparse_operation_none (0::32 word) 1 0 0 None 0 0 0 0 0 1
       rocsparse_analysis_policy_reuse rocsparse_solve_policy_auto 0 []
     = (Some rocsparse_status_invalid_pointer, [])"
proof -
  have h: "(0::32 word) = 0 \<or> (1::32 word) = 0" by simp
  from zero_dimension_returns_after_leading_checks [OF h,
      where handle = 1 and trans_A = rocsparse_operation_none
        and trans_B = rocsparse_operation_none and nnz = 0 and descr = None and info = 1
        and analysis = rocsparse_analysis_policy_reuse
        and solve = rocsparse_solve_policy_auto]
  obtain st where
    a: "\<forall>(run :: 32 word collaborator_call \<Rightarrow> 32 word collaborator_call list
                 \<Rightarrow> rocsparse_status \<times> 32 word collaborator_call list)
         alpha coo_val coo_row_ind coo_col_ind B ldb temp_buffer s.
         rocsparse_coosm_analysis_template run 1 rocsparse_operation_none
           rocsparse_operation_none (0::32 word) 1 0 alpha None coo_val coo_row_ind
           coo_col_ind B ldb 1 rocsparse_analysis_policy_reuse rocsparse_solve_policy_auto
           temp_buffer s
         = (Some st, s)"
    by blast
  from a have "rocsparse_coosm_analysis_template (record_call answer_success) 1
       rocsparse_operation_none rocsparse_operation_none (0::32 word) 1 0 0 None 0 0 0 0 0 1
       rocsparse_analysis_policy_reuse rocsparse_solve_policy_auto 0 []
     = (Some st, [])"
    by blast
  then show ?thesis by (simp add: checkarg_eval)
qed

text \<open>
  Quick return does not come first: with \<open>m = 0\<close> and a null handle, every other
  argument being valid, the routine reports an invalid handle instead of succeeding.
\<close>

theorem zero_dimension_null_handle_counterexample:
  "rocsparse_coosm_analysis_template (record_call answer_success) nullptr
     rocsparse_operation_none rocsparse_operation_none (0::32 word) 1 0 1
     (Some \<lparr>descr_type = rocsparse_matrix_type_general,
            descr_fill_mode = rocsparse_fill_mode_lower,
            descr_diag_type = rocsparse_diag_type_non_unit,
            descr_base = rocsparse_index_base_zero,
            descr_storage_mode = rocsparse_storage_mode_sorted\<rparr>)
     1 1 1 1 1 1 rocsparse_analysis_policy_reuse rocsparse_solve_policy_auto 1 []
   = (Some rocsparse_status_invalid_handle, [])"
  by (simp add: checkarg_eval)

text \<open>
  C2 (as amended). For every analysis call on a zero-sized problem (\<open>m = 0\<close> or
  \<open>nrhs = 0\<close>) with a valid handle, valid operations and policies, non-negative sizes, a
  non-null info object and a non-null descriptor of general matrix type and sorted storage
  mode, the routine returns success with the state it was given, for every behaviour of
  the collaborators and for every value, null included, of the temp buffer, alpha, the
  three COO arrays and B. The index type is one of the instantiated ones (at most 64
  bits).
\<close>

theorem zero_sized_analysis_succeeds_untouched:
  fixes m nrhs :: "'i::len word"
  assumes "LENGTH('i) \<le> 64"
    and "m = 0 \<or> nrhs = 0"
    and "handle \<noteq> nullptr"
    and "\<not> operation_is_invalid trans_A" and "\<not> operation_is_invalid trans_B"
    and "\<not> analysis_policy_is_invalid analysis" and "\<not> solve_policy_is_invalid solve"
    and "0 \<le> sint m" and "0 \<le> sint nrhs" and "0 \<le> sint nnz"
    and "descr = Some d"
    and "descr_type d = rocsparse_matrix_type_general"
    and "descr_storage_mode d = rocsparse_storage_mode_sorted"
    and "info \<noteq> nullptr"
  shows "rocsparse_coosm_analysis_template run handle trans_A trans_B m nrhs nnz alpha
           descr coo_val coo_row_ind coo_col_ind B ldb info analysis solve temp_buffer s
         = (Some rocsparse_status_success, s)"
proof -
  have sz: "\<not> CHECKARG_SIZE (scast m)" "\<not> CHECKARG_SIZE (scast nrhs)" "\<not> CHECKARG_SIZE nnz"
    using assms by (simp_all add: CHECKARG_SIZE_scast) (simp add: CHECKARG_SIZE_def word_sless_alt)
  from assms(2) have z: "(scast m :: int64_t) = 0 \<or> (scast nrhs :: int64_t) = 0" by auto
  have "rocsparse_coosm_analysis_checkarg handle trans_A trans_B (scast m) (scast nrhs)
          nnz alpha descr coo_val coo_row_ind coo_col_ind B ldb info analysis solve
          temp_buffer = rocsparse_status_success"
    using assms(3-7,11-14) sz z
    by (simp add: rocsparse_coosm_analysis_checkarg_def Let_def CHECKARG_POINTER_def
          rocsparse_coosm_analysis_quickreturn_def)
  then show ?thesis by (simp add: rocsparse_coosm_analysis_template_def)
qed

theorem zero_sized_analysis_succeeds_untouched_witness:
  "rocsparse_coosm_analysis_template (record_call answer_success) 1
     rocsparse_operation_none rocsparse_operation_transpose (0::32 word) 3 0 nullptr
     (Some \<lparr>descr_type = rocsparse_matrix_type_general,
            descr_fill_mode = rocsparse_fill_mode_lower,
            descr_diag_type = rocsparse_diag_type_non_unit,
            descr_base = rocsparse_index_base_zero,
            descr_storage_mode = rocsparse_storage_mode_sorted\<rparr>)
     nullptr nullptr nullptr nullptr 1 1 rocsparse_analysis_policy_reuse
     rocsparse_solve_policy_auto nullptr []
   = (Some rocsparse_status_success, [])"
  by (rule zero_sized_analysis_succeeds_untouched
        [where d = "\<lparr>descr_type = rocsparse_matrix_type_general,
                       descr_fill_mode = rocsparse_fill_mode_lower,
                       descr_diag_type = rocsparse_diag_type_non_unit,
                       descr_base = rocsparse_index_base_zero,
                       descr_storage_mode = rocsparse_storage_mode_sorted\<rparr>"])
     (simp_all add: checkarg_eval)

text \<open>
  A non-null descriptor is not enough: with every other argument valid, a descriptor of
  symmetric type makes the zero-sized call end with not-implemented.
\<close>

theorem zero_sized_symmetric_descr_counterexample:
  "rocsparse_coosm_analysis_template (record_call answer_success) 1
     rocsparse_operation_none rocsparse_operation_none (0::32 word) 1 0 1
     (Some \<lparr>descr_type = rocsparse_matrix_type_symmetric,
            descr_fill_mode = rocsparse_fill_mode_lower,
            descr_diag_type = rocsparse_diag_type_non_unit,
            descr_base = rocsparse_index_base_zero,
            descr_storage_mode = rocsparse_storage_mode_sorted\<rparr>)
     1 1 1 1 1 1 rocsparse_analysis_policy_reuse rocsparse_solve_policy_auto 1 []
   = (Some rocsparse_status_not_implemented, [])"
  by (simp add: checkarg_eval)

subsection \<open>Validation failures leave the state alone\<close>

text \<open>
  C3. Whenever the argument check of the COO analysis routine ends with an error (a
  status that is neither the continue sentinel nor success), the template returns exactly
  that status and hands back the state it was given, whatever the collaborators would do:
  the core, which alone calls them, is not run.
\<close>

theorem checkarg_failure_returns_without_core:
  assumes "rocsparse_coosm_analysis_checkarg handle trans_A trans_B (scast m) (scast nrhs)
             nnz alpha descr coo_val coo_row_ind coo_col_ind B ldb info analysis solve
             temp_buffer = st"
    and "st \<noteq> rocsparse_status_continue"
    and "st \<noteq> rocsparse_status_success"
  shows "rocsparse_coosm_analysis_template run handle trans_A trans_B m nrhs nnz alpha descr
           coo_val coo_row_ind coo_col_ind B ldb info analysis solve temp_buffer s
         = (Some st, s)"
  using assms by (simp add: rocsparse_coosm_analysis_template_def)

theorem checkarg_failure_returns_without_core_witness:
  "rocsparse_coosm_analysis_checkarg 1 rocsparse_operation_none rocsparse_operation_none
     (scast (4::32 word)) (scast (-1::32 word)) 5 1 None 1 1 1 1 4 1
     rocsparse_analysis_policy_reuse rocsparse_solve_policy_auto 1
   = rocsparse_status_invalid_size
   \<and> rocsparse_coosm_analysis_template (record_call answer_success) 1
       rocsparse_operation_none rocsparse_operation_none (4::32 word) (-1) 5 1 None 1 1 1 1
       4 1 rocsparse_analysis_policy_reuse rocsparse_solve_policy_auto 1 []
     = (Some rocsparse_status_invalid_size, [])"
proof -
  have h: "rocsparse_coosm_analysis_checkarg 1 rocsparse_operation_none
     rocsparse_operation_none (scast (4::32 word)) (scast (-1::32 word)) 5 1 None 1 1 1 1 4 1
     rocsparse_analysis_policy_reuse rocsparse_solve_policy_auto 1
   = rocsparse_status_invalid_size"
    by (simp add: checkarg_eval)
  from checkarg_failure_returns_without_core [OF h] h show ?thesis by simp
qed

subsection \<open>The continue sentinel does not escape\<close>

lemma core_status_from_run:
  assumes "\<And>c s. fst (run c s) \<noteq> rocsparse_status_continue"
    and "descr = Some d"
  shows "\<exists>st. fst (rocsparse_coosm_analysis_core run handle trans_A trans_B m nrhs nnz alpha
                 descr coo_val coo_row_ind coo_col_ind B ldb info analysis solve
                 temp_buffer s) = Some st \<and> st \<noteq> rocsparse_status_continue"
proof -
  have b32: "\<exists>st. fst (rocsparse_coosm_analysis_core_int32_branch run handle trans_A trans_B
               m nrhs nnz alpha descr coo_val coo_row_ind coo_col_ind B ldb info analysis
               solve temp_buffer s) = Some st \<and> st \<noteq> rocsparse_status_continue"
    using assms(1) assms(2)
    by (auto simp add: rocsparse_coosm_analysis_core_int32_branch_def Let_def
          split: prod.splits dest: arg_cong [where f = fst])
  have b64: "\<exists>st. fst (rocsparse_coosm_analysis_core_int64_branch run handle trans_A trans_B
               m nrhs nnz alpha descr coo_val coo_row_ind coo_col_ind B ldb info analysis
               solve temp_buffer s) = Some st \<and> st \<noteq> rocsparse_status_continue"
    using assms(1) assms(2)
    by (auto simp add: rocsparse_coosm_analysis_core_int64_branch_def Let_def
          split: prod.splits dest: arg_cong [where f = fst])
  from b32 b64 show ?thesis
    by (simp add: rocsparse_coosm_analysis_core_def Let_def)
qed

lemma template_status_closed:
  assumes "\<And>c s. fst (run c s) \<noteq> rocsparse_status_continue"
  shows "\<exists>st. fst (rocsparse_coosm_analysis_template run handle trans_A trans_B m nrhs nnz
                 alpha descr coo_val coo_row_ind coo_col_ind B ldb info analysis solve
                 temp_buffer s) = Some st \<and> st \<noteq> rocsparse_status_continue"
proof (cases "rocsparse_coosm_analysis_checkarg handle trans_A trans_B (scast m) (scast nrhs)
                nnz alpha descr coo_val coo_row_ind coo_col_ind B ldb info analysis solve
                temp_buffer = rocsparse_status_continue")
  case False
  then show ?thesis by (simp add: template_no_continue [OF refl])
next
  case True
  then obtain d where d: "descr = Some d" using checkarg_continueD by blast
  from core_status_from_run [of run, OF assms d]
  obtain st where st: "fst (rocsparse_coosm_analysis_core run handle trans_A trans_B m nrhs
        nnz alpha descr coo_val coo_row_ind coo_col_ind B ldb info analysis solve
        temp_buffer s) = Some st" "st \<noteq> rocsparse_status_continue"
    by blast
  then show ?thesis using True
    by (cases "rocsparse_coosm_analysis_core run handle trans_A trans_B m nrhs
        nnz alpha descr coo_val coo_row_ind coo_col_ind B ldb info analysis solve
        temp_buffer s") (simp add: rocsparse_coosm_analysis_template_def)
qed

lemma gebsc_buffer_size_impl_closed:
  assumes "\<And>p s. fst (core p s) \<noteq> rocsparse_status_continue"
  shows "fst (rocsparse_check_matrix_gebsc_buffer_size_impl checkarg core p s)
         \<noteq> rocsparse_status_continue"
  using assms [of p s]
  by (cases "core p s") (simp add: rocsparse_check_matrix_gebsc_buffer_size_impl_def Let_def)

lemma gebsc_impl_closed:
  assumes "\<And>p s. fst (core p s) \<noteq> rocsparse_status_continue"
  shows "fst (rocsparse_check_matrix_gebsc_impl checkarg core p s)
         \<noteq> rocsparse_status_continue"
  using assms [of p s]
  by (cases "core p s") (simp add: rocsparse_check_matrix_gebsc_impl_def Let_def)

text \<open>
  C4. The status that the COO analysis template and the two GEBSC wrappers hand to their
  caller lies in the closed set of eight codes, and in particular is never the continue
  sentinel, provided the collaborators they call (the COO-to-CSR conversion and the CSR
  analysis; the two GEBSC cores) answer within the closed set themselves. The template
  always returns a status: it never reads the descriptor through a null pointer. The
  status is a function of the arguments, the state and the collaborators' answers.
\<close>

theorem returned_status_in_closed_set:
  assumes "\<forall>c s. fst (run c s) \<in> closed_status_set"
    and "\<forall>p s. fst (buffer_size_core p s) \<in> closed_status_set"
    and "\<forall>p s. fst (gebsc_core p s) \<in> closed_status_set"
  shows "(\<exists>st. fst (rocsparse_coosm_analysis_template run handle trans_A trans_B m nrhs nnz
                 alpha descr coo_val coo_row_ind coo_col_ind B ldb info analysis solve
                 temp_buffer s) = Some st \<and> st \<in> closed_status_set)
       \<and> fst (rocsparse_check_matrix_gebsc_buffer_size_impl buffer_size_checkarg
                 buffer_size_core p t) \<in> closed_status_set
       \<and> fst (rocsparse_check_matrix_gebsc_impl gebsc_checkarg gebsc_core q u)
             \<in> closed_status_set"
proof (intro conjI)
  from assms(1) have "\<And>c s. fst (run c s) \<noteq> rocsparse_status_continue"
    by (simp add: status_closed_iff)
  from template_status_closed [of run, OF this]
  show "\<exists>st. fst (rocsparse_coosm_analysis_template run handle trans_A trans_B m nrhs nnz
                 alpha descr coo_val coo_row_ind coo_col_ind B ldb info analysis solve
                 temp_buffer s) = Some st \<and> st \<in> closed_status_set"
    by (simp add: status_closed_iff)
next
  from assms(2) have "\<And>p s. fst (buffer_size_core p s) \<noteq> rocsparse_status_continue"
    by (simp add: status_closed_iff)
  from gebsc_buffer_size_impl_closed [of buffer_size_core, OF this]
  show "fst (rocsparse_check_matrix_gebsc_buffer_size_impl buffer_size_checkarg
                 buffer_size_core p t) \<in> closed_status_set"
    by (simp add: status_closed_iff)
next
  from assms(3) have "\<And>p s. fst (gebsc_core p s) \<noteq> rocsparse_status_continue"
    by (simp add: status_closed_iff)
  from gebsc_impl_closed [of gebsc_core, OF this]
  show "fst (rocsparse_check_matrix_gebsc_impl gebsc_checkarg gebsc_core q u)
             \<in> closed_status_set"
    by (simp add: status_closed_iff)
qed

theorem returned_status_in_closed_set_witness:
  "(\<exists>st. fst (rocsparse_coosm_analysis_template (record_call answer_success) 1
               rocsparse_operation_none rocsparse_operation_none (4::32 word) 2 5 1
               (Some \<lparr>descr_type = rocsparse_matrix_type_general,
                      descr_fill_mode = rocsparse_fill_mode_lower,
                      descr_diag_type = rocsparse_diag_type_non_unit,
                      descr_base = rocsparse_index_base_zero,
                      descr_storage_mode = rocsparse_storage_mode_sorted\<rparr>)
               1 1 1 1 4 1 rocsparse_analysis_policy_reuse rocsparse_solve_policy_auto 1
               []) = Some st \<and> st \<in> closed_status_set)
   \<and> fst (rocsparse_check_matrix_gebsc_buffer_size_impl gebsc_checkarg_continues
            gebsc_core_succeeds () (0::nat)) \<in> closed_status_set
   \<and> fst (rocsparse_check_matrix_gebsc_impl gebsc_checkarg_continues
            gebsc_core_succeeds () (0::nat)) \<in> closed_status_set"
proof -
  have r: "\<forall>c s. fst (record_call answer_success (c :: 32 word collaborator_call) s)
             \<in> closed_status_set"
    by (simp add: record_call_def answer_success_def closed_status_set_def)
  have g: "\<forall>p s. fst (gebsc_core_succeeds (p :: unit) (s :: nat)) \<in> closed_status_set"
    by (simp add: gebsc_core_succeeds_def closed_status_set_def)
  show ?thesis by (rule returned_status_in_closed_set [OF r g g])
qed

subsection \<open>The error kind of each failing check\<close>

text \<open>
  C6 (as amended). The argument checks of the COO analysis routine run in a fixed order
  and the first one that fails decides the status, so the status is a function of the
  arguments. With every earlier check passed: a null handle yields invalid-handle; an
  operation or policy that is no enumerator yields invalid-value; a negative \<open>m\<close>,
  \<open>nrhs\<close> or \<open>nnz\<close> yields invalid-size; a null descriptor or info yields
  invalid-pointer; a descriptor of non-general type or non-sorted storage yields
  not-implemented; and, when neither \<open>m\<close> nor \<open>nrhs\<close> is zero, a null alpha, B or
  temp buffer, or a null COO array with \<open>nnz > 0\<close>, yields invalid-pointer, whereas
  with \<open>m\<close> or \<open>nrhs\<close> zero these pointers are not looked at and the status is
  success.
  Conversely each error kind names its cause: invalid-handle is returned only for a null
  handle, invalid-value only for an invalid enumeration value, invalid-size only for a
  negative size, invalid-pointer only for a null pointer, not-implemented only for an
  unsupported descriptor; memory-error and internal-error are never returned by the
  checks.
\<close>

theorem checkarg_reports_error_kinds:
  assumes r: "rocsparse_coosm_analysis_checkarg handle trans_A trans_B m nrhs nnz alpha descr
                coo_val coo_row_ind coo_col_ind B ldb info analysis solve temp_buffer = r"
  shows "(handle = nullptr \<longrightarrow> r = rocsparse_status_invalid_handle)
    \<and> (handle \<noteq> nullptr \<and> (operation_is_invalid trans_A \<or> operation_is_invalid trans_B)
         \<longrightarrow> r = rocsparse_status_invalid_value)
    \<and> (handle \<noteq> nullptr \<and> \<not> operation_is_invalid trans_A \<and> \<not> operation_is_invalid trans_B
         \<and> (m <s 0 \<or> nrhs <s 0 \<or> nnz <s 0)
         \<longrightarrow> r = rocsparse_status_invalid_size)
    \<and> (handle \<noteq> nullptr \<and> \<not> operation_is_invalid trans_A \<and> \<not> operation_is_invalid trans_B
         \<and> \<not> m <s 0 \<and> \<not> nrhs <s 0 \<and> \<not> nnz <s 0 \<longrightarrow>
           (descr = None \<longrightarrow> r = rocsparse_status_invalid_pointer)
         \<and> (\<forall>d. descr = Some d \<longrightarrow>
               (descr_type d \<noteq> rocsparse_matrix_type_general
                  \<or> descr_storage_mode d \<noteq> rocsparse_storage_mode_sorted
                \<longrightarrow> r = rocsparse_status_not_implemented)
             \<and> (descr_type d = rocsparse_matrix_type_general
                  \<and> descr_storage_mode d = rocsparse_storage_mode_sorted \<longrightarrow>
                   (info = nullptr \<longrightarrow> r = rocsparse_status_invalid_pointer)
                 \<and> (info \<noteq> nullptr
                      \<and> (analysis_policy_is_invalid analysis \<or> solve_policy_is_invalid solve)
                    \<longrightarrow> r = rocsparse_status_invalid_value)
                 \<and> (info \<noteq> nullptr \<and> \<not> analysis_policy_is_invalid analysis
                      \<and> \<not> solve_policy_is_invalid solve \<and> m \<noteq> 0 \<and> nrhs \<noteq> 0
                      \<and> (alpha = nullptr \<or> B = nullptr \<or> temp_buffer = nullptr
                          \<or> (0 <s nnz \<and> (coo_val = nullptr \<or> coo_row_ind = nullptr
                                \<or> coo_col_ind = nullptr)))
                    \<longrightarrow> r = rocsparse_status_invalid_pointer)
                 \<and> (info \<noteq> nullptr \<and> \<not> analysis_policy_is_invalid analysis
                      \<and> \<not> solve_policy_is_invalid solve \<and> (m = 0 \<or> nrhs = 0)
                    \<longrightarrow> r = rocsparse_status_success))))
    \<and> (r = rocsparse_status_invalid_handle \<longrightarrow> handle = nullptr)
    \<and> (r = rocsparse_status_invalid_value \<longrightarrow>
          operation_is_invalid trans_A \<or> operation_is_invalid trans_B
          \<or> analysis_policy_is_invalid analysis \<or> solve_policy_is_invalid solve)
    \<and> (r = rocsparse_status_invalid_size \<longrightarrow> m <s 0 \<or> nrhs <s 0 \<or> nnz <s 0)
    \<and> (r = rocsparse_status_invalid_pointer \<longrightarrow>
          descr = None \<or> info = nullptr \<or> alpha = nullptr \<or> B = nullptr
          \<or> temp_buffer = nullptr
          \<or> (0 <s nnz \<and> (coo_val = nullptr \<or> coo_row_ind = nullptr
                \<or> coo_col_ind = nullptr)))
    \<and> (r = rocsparse_status_not_implemented \<longrightarrow>
          (\<exists>d. descr = Some d \<and> (descr_type d \<noteq> rocsparse_matrix_type_general
             \<or> descr_storage_mode d \<noteq> rocsparse_storage_mode_sorted)))
    \<and> r \<noteq> rocsparse_status_memory_error \<and> r \<noteq> rocsparse_status_internal_error"
proof -
  note r' = r [symmetric]
  have f1: "handle = nullptr \<longrightarrow> r = rocsparse_status_invalid_handle"
    unfolding r' by (simp add: checkarg_handle)
  have f2: "handle \<noteq> nullptr \<and> (operation_is_invalid trans_A \<or> operation_is_invalid trans_B)
         \<longrightarrow> r = rocsparse_status_invalid_value"
    unfolding r' by (simp add: checkarg_operation)
  have f3: "handle \<noteq> nullptr \<and> \<not> operation_is_invalid trans_A \<and> \<not> operation_is_invalid trans_B
         \<and> (m <s 0 \<or> nrhs <s 0 \<or> nnz <s 0)
         \<longrightarrow> r = rocsparse_status_invalid_size"
    unfolding r' by (simp add: checkarg_size)
  have f4: "handle \<noteq> nullptr \<and> \<not> operation_is_invalid trans_A \<and> \<not> operation_is_invalid trans_B
         \<and> \<not> m <s 0 \<and> \<not> nrhs <s 0 \<and> \<not> nnz <s 0 \<longrightarrow>
           (descr = None \<longrightarrow> r = rocsparse_status_invalid_pointer)
         \<and> (\<forall>d. descr = Some d \<longrightarrow>
               (descr_type d \<noteq> rocsparse_matrix_type_general
                  \<or> descr_storage_mode d \<noteq> rocsparse_storage_mode_sorted
                \<longrightarrow> r = rocsparse_status_not_implemented)
             \<and> (descr_type d = rocsparse_matrix_type_general
                  \<and> descr_storage_mode d = rocsparse_storage_mode_sorted \<longrightarrow>
                   (info = nullptr \<longrightarrow> r = rocsparse_status_invalid_pointer)
                 \<and> (info \<noteq> nullptr
                      \<and> (analysis_policy_is_invalid analysis \<or> solve_policy_is_invalid solve)
                    \<longrightarrow> r = rocsparse_status_invalid_value)
                 \<and> (info \<noteq> nullptr \<and> \<not> analysis_policy_is_invalid analysis
                      \<and> \<not> solve_policy_is_invalid solve \<and> m \<noteq> 0 \<and> nrhs \<noteq> 0
                      \<and> (alpha = nullptr \<or> B = nullptr \<or> temp_buffer = nullptr
                          \<or> (0 <s nnz \<and> (coo_val = nullptr \<or> coo_row_ind = nullptr
                                \<or> coo_col_ind = nullptr)))
                    \<longrightarrow> r = rocsparse_status_invalid_pointer)
                 \<and> (info \<noteq> nullptr \<and> \<not> analysis_policy_is_invalid analysis
                      \<and> \<not> solve_policy_is_invalid solve \<and> (m = 0 \<or> nrhs = 0)
                    \<longrightarrow> r = rocsparse_status_success)))"
    unfolding r'
  proof (intro impI conjI allI, goal_cases)
    case 1 then show ?case by (simp add: checkarg_descr_null)
  next
    case (2 d) then show ?case by (simp add: checkarg_descr_unsupported)
  next
    case (3 d) then show ?case by (simp add: checkarg_info_null)
  next
    case (4 d) then show ?case by (simp add: checkarg_policy)
  next
    case (5 d) then show ?case by (intro checkarg_data_pointer [where d = d]) auto
  next
    case (6 d) then show ?case by (intro checkarg_zero_dimension_success [where d = d]) auto
  qed
  have b1: "r = rocsparse_status_invalid_handle \<longrightarrow> handle = nullptr"
    using r by (auto dest: checkarg_invalid_handleD)
  have b2: "r = rocsparse_status_invalid_value \<longrightarrow>
          operation_is_invalid trans_A \<or> operation_is_invalid trans_B
          \<or> analysis_policy_is_invalid analysis \<or> solve_policy_is_invalid solve"
    using r checkarg_invalid_valueD by blast
  have b3: "r = rocsparse_status_invalid_size \<longrightarrow> m <s 0 \<or> nrhs <s 0 \<or> nnz <s 0"
    using r checkarg_invalid_sizeD by blast
  have b4: "r = rocsparse_status_invalid_pointer \<longrightarrow>
          descr = None \<or> info = nullptr \<or> alpha = nullptr \<or> B = nullptr
          \<or> temp_buffer = nullptr
          \<or> (0 <s nnz \<and> (coo_val = nullptr \<or> coo_row_ind = nullptr
                \<or> coo_col_ind = nullptr))"
    using r checkarg_invalid_pointerD by blast
  have b5: "r = rocsparse_status_not_implemented \<longrightarrow>
          (\<exists>d. descr = Some d \<and> (descr_type d \<noteq> rocsparse_matrix_type_general
             \<or> descr_storage_mode d \<noteq> rocsparse_storage_mode_sorted))"
    using r checkarg_not_implementedD by blast
  have b67: "r \<noteq> rocsparse_status_memory_error \<and> r \<noteq> rocsparse_status_internal_error"
    using checkarg_range [of handle trans_A trans_B m nrhs nnz alpha descr coo_val
        coo_row_ind coo_col_ind B ldb info analysis solve temp_buffer]
    unfolding r by simp
  then have b6: "r \<noteq> rocsparse_status_memory_error"
    and b7: "r \<noteq> rocsparse_status_internal_error" by simp_all
  show ?thesis by (intro conjI f1 f2 f3 f4 b1 b2 b3 b4 b5 b6 b7)
qed

theorem checkarg_reports_error_kinds_witness:
  "rocsparse_coosm_analysis_checkarg 1 rocsparse_operation_none
     rocsparse_operation_out_of_range 4 2 5 1 None 1 1 1 1 4 1
     rocsparse_analysis_policy_reuse rocsparse_solve_policy_auto 1
   = rocsparse_status_invalid_value"
  using checkarg_reports_error_kinds [OF refl, of 1 rocsparse_operation_none
      rocsparse_operation_out_of_range 4 2 5 1 None 1 1 1 1 4 1
      rocsparse_analysis_policy_reuse rocsparse_solve_policy_auto 1]
  by (simp add: nullptr_def operation_is_invalid_def)

text \<open>
  On a zero-sized problem the data pointers are not checked: with \<open>m = 0\<close>,
  \<open>nnz = 5\<close> and alpha, the three COO arrays, B and the temp buffer all null, every
  other argument being valid, the checks end with success, not with invalid-pointer.
\<close>

theorem checkarg_null_data_pointers_counterexample:
  "rocsparse_coosm_analysis_checkarg 1 rocsparse_operation_none rocsparse_operation_none
     0 1 5 nullptr
     (Some \<lparr>descr_type = rocsparse_matrix_type_general,
            descr_fill_mode = rocsparse_fill_mode_lower,
            descr_diag_type = rocsparse_diag_type_non_unit,
            descr_base = rocsparse_index_base_zero,
            descr_storage_mode = rocsparse_storage_mode_sorted\<rparr>)
     nullptr nullptr nullptr nullptr 1 1 rocsparse_analysis_policy_reuse
     rocsparse_solve_policy_auto nullptr
   = rocsparse_status_success"
  by (simp add: checkarg_eval)

subsection \<open>The narrowing cast and the row-pointer region\<close>








subsection \<open>The two branches of the core\<close>

text \<open>
  C5. On the same arguments, with \<open>nnz\<close> in the range of \<open>int32_t\<close> below its
  maximum (the guard of the \<open>int32_t\<close> branch; \<open>nnz\<close> is not negative after the
  argument checks), the two branches of the core do the same modulo the width of the row
  pointers: the \<open>int64_t\<close> branch makes the calls of the \<open>int32_t\<close> branch, widened
  (the same conversion and the same analysis, on the same handle, rows, columns, values,
  sizes, \<open>nnz\<close>, base and row-pointer address, the row-pointer region being twice as
  long in bytes), and returns the same status, provided each collaborator answers a
  widened call as it answers the narrow one.
\<close>

theorem core_branches_agree_modulo_width:
  assumes lo: "- (2 ^ 31) \<le> sint nnz" and hi: "nnz <s 0x7FFFFFFF"
    and w: "\<forall>c. answer64 (widen_call c) = answer32 c"
  shows "rocsparse_coosm_analysis_core_int64_branch (record_call answer64) handle trans_A
           trans_B m nrhs nnz alpha descr coo_val coo_row_ind coo_col_ind B ldb info
           analysis solve temp_buffer []
         = (case rocsparse_coosm_analysis_core_int32_branch (record_call answer32) handle
                   trans_A trans_B m nrhs nnz alpha descr coo_val coo_row_ind coo_col_ind
                   B ldb info analysis solve temp_buffer [] of
              (st, calls) \<Rightarrow> (st, map widen_call calls))"
proof (cases descr)
  case None
  then show ?thesis
    by (simp add: rocsparse_coosm_analysis_core_int64_branch_def
          rocsparse_coosm_analysis_core_int32_branch_def)
next
  case (Some d)
  from hi have "sint nnz < 2 ^ 31" by (simp add: word_sless_alt)
  with lo have n: "(scast (ucast nnz :: 32 word) :: 64 word) = nnz"
    by (simp add: scast_ucast_32)
  let ?c1 = "rocsparse_coo2csr_template handle coo_row_ind (as_int32 (ucast nnz)) m
               temp_buffer (descr_base d)"
  let ?c2 = "rocsparse_csrsm_analysis_template handle trans_A trans_B m nrhs
               (as_int32 (ucast nnz)) alpha descr coo_val temp_buffer coo_col_ind B ldb
               info analysis solve (temp_buffer + 4 * scast (index_div m 256 + 1) * 256)"
  have w1: "widen_call ?c1 = rocsparse_coo2csr_template handle coo_row_ind (as_int64 nnz) m
               temp_buffer (descr_base d)"
    by (simp add: n)
  have w2: "widen_call ?c2 = rocsparse_csrsm_analysis_template handle trans_A trans_B m nrhs
               (as_int64 nnz) alpha descr coo_val temp_buffer coo_col_ind B ldb
               info analysis solve (temp_buffer + 8 * scast (index_div m 256 + 1) * 256)"
    by (simp add: n)
  from w have a1: "answer64 (widen_call ?c1) = answer32 ?c1"
    and a2: "answer64 (widen_call ?c2) = answer32 ?c2" by blast+
  show ?thesis
    using a1 a2 unfolding w1 w2
    by (simp add: Some rocsparse_coosm_analysis_core_int64_branch_def
          rocsparse_coosm_analysis_core_int32_branch_def record_call_def Let_def n)
qed

theorem core_branches_agree_modulo_width_witness:
  "rocsparse_coosm_analysis_core_int64_branch (record_call answer_success) 1
     rocsparse_operation_none rocsparse_operation_none (300::32 word) 2 5 1
     (Some \<lparr>descr_type = rocsparse_matrix_type_general,
            descr_fill_mode = rocsparse_fill_mode_lower,
            descr_diag_type = rocsparse_diag_type_non_unit,
            descr_base = rocsparse_index_base_one,
            descr_storage_mode = rocsparse_storage_mode_sorted\<rparr>)
     1 1 1 1 300 1 rocsparse_analysis_policy_reuse rocsparse_solve_policy_auto 4096 []
   = (case rocsparse_coosm_analysis_core_int32_branch (record_call answer_success) 1
       rocsparse_operation_none rocsparse_operation_none (300::32 word) 2 5 1
       (Some \<lparr>descr_type = rocsparse_matrix_type_general,
              descr_fill_mode = rocsparse_fill_mode_lower,
              descr_diag_type = rocsparse_diag_type_non_unit,
              descr_base = rocsparse_index_base_one,
              descr_storage_mode = rocsparse_storage_mode_sorted\<rparr>)
       1 1 1 1 300 1 rocsparse_analysis_policy_reuse rocsparse_solve_policy_auto 4096 [] of
        (st, calls) \<Rightarrow> (st, map widen_call calls))
   \<and> snd (rocsparse_coosm_analysis_core_int32_branch (record_call answer_success) 1
       rocsparse_operation_none rocsparse_operation_none (300::32 word) 2 5 1
       (Some \<lparr>descr_type = rocsparse_matrix_type_general,
              descr_fill_mode = rocsparse_fill_mode_lower,
              descr_diag_type = rocsparse_diag_type_non_unit,
              descr_base = rocsparse_index_base_one,
              descr_storage_mode = rocsparse_storage_mode_sorted\<rparr>)
       1 1 1 1 300 1 rocsparse_analysis_policy_reuse rocsparse_solve_policy_auto 4096 [])
     \<noteq> []"
proof -
  have lo: "- (2 ^ 31) \<le> sint (5 :: int64_t)" by simp
  have hi: "(5 :: int64_t) <s 0x7FFFFFFF" by (simp add: word_sless_alt)
  have w: "\<forall>c :: 32 word collaborator_call. answer_success (widen_call c) = answer_success c"
    by (simp add: answer_success_def)
  show ?thesis
    by (rule conjI, rule core_branches_agree_modulo_width [OF lo hi w])
       (simp add: rocsparse_coosm_analysis_core_int32_branch_def record_call_def
          answer_success_def)
qed

section \<open>Properties of the 2D Laplacian generator\<close>

subsection \<open>Counting the entries\<close>

lemma laplacian_rows_Suc:
  "laplacian_rows ndim b (Suc k) = laplacian_rows ndim b k @ laplacian_row ndim b k"
  by (simp add: laplacian_rows_def)

lemma laplacian_rows_0: "laplacian_rows ndim b 0 = []"
  by (simp add: laplacian_rows_def)

lemma laplacian_rows_mono:
  "k \<le> k' \<Longrightarrow> length (laplacian_rows ndim b k) \<le> length (laplacian_rows ndim b k')"
  by (induction k' ) (auto simp add: laplacian_rows_Suc le_Suc_eq)

lemma length_laplacian_row:
  "int (length (laplacian_row ndim b r))
   = 1 + of_bool (r div nat ndim \<noteq> 0) + of_bool (r mod nat ndim \<noteq> 0)
     + of_bool (int (r mod nat ndim) \<noteq> ndim - 1) + of_bool (int (r div nat ndim) \<noteq> ndim - 1)"
  by (simp add: laplacian_row_def Let_def)

lemma length_laplacian_rows_in_row:
  assumes "0 < d" and "j \<le> d"
  shows "int (length (laplacian_rows (int d) b (i * d + j)))
         = int (length (laplacian_rows (int d) b (i * d)))
           + int j * (1 + of_bool (i \<noteq> 0) + of_bool (Suc i \<noteq> d))
           + (int j - of_bool (j \<noteq> 0)) + (int j - of_bool (j = d))"
  using assms(2)
proof (induction j)
  case 0
  then show ?case using assms(1) by simp
next
  case (Suc j)
  then have j: "j < d" by simp
  then have dm: "(i * d + j) div d = i" "(i * d + j) mod d = j"
    by simp_all
  have e1: "int j \<noteq> int d - 1 \<longleftrightarrow> Suc j \<noteq> d" and e2: "int i \<noteq> int d - 1 \<longleftrightarrow> Suc i \<noteq> d"
    by auto
  define x where "x = int (length (laplacian_rows (int d) b (i * d + Suc j)))"
  define y where "y = int (length (laplacian_rows (int d) b (i * d + j)))"
  define z where "z = int (length (laplacian_rows (int d) b (i * d)))"
  define p :: int where "p = of_bool (i \<noteq> 0)"
  define t :: int where "t = of_bool (Suc i \<noteq> d)"
  have "x = y + int (length (laplacian_row (int d) b (i * d + j)))"
    by (simp add: x_def y_def laplacian_rows_Suc)
  also have "int (length (laplacian_row (int d) b (i * d + j)))
        = 1 + p + of_bool (j \<noteq> 0) + of_bool (Suc j \<noteq> d) + t"
    unfolding p_def t_def by (simp only: length_laplacian_row nat_int dm e1 e2)
  finally have s: "x = y + (1 + p + of_bool (j \<noteq> 0) + of_bool (Suc j \<noteq> d) + t)" .
  have ih: "y = z + int j * (1 + p + t) + (int j - of_bool (j \<noteq> 0)) + int j"
    using Suc j unfolding y_def z_def p_def t_def by simp
  define u :: int where "u = of_bool (Suc j = d)"
  have r: "of_bool (Suc j \<noteq> d) = 1 - u" unfolding u_def by simp
  have "x = z + (int j + 1) * (1 + p + t) + int j + (int j + 1 - u)"
    unfolding s ih r by (simp add: algebra_simps)
  then show ?case unfolding x_def z_def p_def t_def u_def by simp
qed

lemma length_laplacian_rows_full:
  assumes "0 < d" and "i \<le> d"
  shows "int (length (laplacian_rows (int d) b (i * d)))
         = int i * (3 * int d - 2) + int d * (int i - of_bool (i \<noteq> 0))
           + int d * (int i - of_bool (i = d))"
  using assms(2)
proof (induction i)
  case 0
  then show ?case using assms(1) by (simp add: laplacian_rows_0)
next
  case (Suc i)
  then have i: "i < d" by simp
  define x where "x = int (length (laplacian_rows (int d) b (Suc i * d)))"
  define z where "z = int (length (laplacian_rows (int d) b (i * d)))"
  have "x = int (length (laplacian_rows (int d) b (i * d + d)))"
    unfolding x_def by (simp add: add.commute)
  also have "\<dots> = z + int d * (1 + of_bool (i \<noteq> 0) + of_bool (Suc i \<noteq> d))
           + (int d - of_bool (d \<noteq> 0)) + (int d - of_bool (d = d))"
    unfolding z_def by (rule length_laplacian_rows_in_row [OF assms(1)]) simp
  finally have s: "x = z + int d * (1 + of_bool (i \<noteq> 0) + of_bool (Suc i \<noteq> d))
           + (int d - 1) + (int d - 1)"
    using assms(1) by simp
  have ih: "z = int i * (3 * int d - 2) + int d * (int i - of_bool (i \<noteq> 0)) + int d * int i"
    using Suc i unfolding z_def by simp
  define p :: int where "p = of_bool (i \<noteq> 0)"
  define u :: int where "u = of_bool (Suc i = d)"
  have r: "of_bool (Suc i \<noteq> d) = 1 - u" unfolding u_def by simp
  have "x = (int i + 1) * (3 * int d - 2) + int d * int i
           + int d * (int i + 1 - u)"
    unfolding s ih r p_def [symmetric] by (simp add: algebra_simps)
  then show ?case unfolding x_def u_def by (simp add: algebra_simps)
qed

lemma length_laplacian_rows_total:
  assumes "0 < ndim"
  shows "length (laplacian_rows ndim b (nat ndim * nat ndim)) = nat (ndim * ndim * 5 - ndim * 4)"
proof -
  from assms obtain d where d: "ndim = int d" "0 < d"
    by (metis zero_less_imp_eq_int)
  have "int (length (laplacian_rows (int d) b (d * d)))
        = int d * int d * 5 - int d * 4"
    using length_laplacian_rows_full [OF d(2), of d b] d(2)
    by (simp add: algebra_simps)
  then show ?thesis unfolding d by (simp add: nat_eq_iff)
qed

lemma take_Suc_update:
  "i < length xs \<Longrightarrow> take (Suc i) (xs[i := c]) = take i xs @ [c]"
  by (simp add: take_Suc_conv_app_nth)

lemma laplacian_entries_fold:
  assumes "length (lap_col s) = N" and "length (lap_val s) = N"
    and "lap_nnz s + length es \<le> N"
  shows "lap_nnz (fold (\<lambda>(c, v). laplacian_entry_written c v) es s) = lap_nnz s + length es
       \<and> length (lap_col (fold (\<lambda>(c, v). laplacian_entry_written c v) es s)) = N
       \<and> length (lap_val (fold (\<lambda>(c, v). laplacian_entry_written c v) es s)) = N
       \<and> lap_rowptr (fold (\<lambda>(c, v). laplacian_entry_written c v) es s) = lap_rowptr s
       \<and> take (lap_nnz s + length es)
            (lap_col (fold (\<lambda>(c, v). laplacian_entry_written c v) es s))
           = take (lap_nnz s) (lap_col s) @ map fst es
       \<and> take (lap_nnz s + length es)
            (lap_val (fold (\<lambda>(c, v). laplacian_entry_written c v) es s))
           = take (lap_nnz s) (lap_val s) @ map snd es"
  using assms
proof (induction es arbitrary: s)
  case Nil
  then show ?case by simp
next
  case (Cons e es)
  obtain c v where e: "e = (c, v)" by (cases e)
  let ?s = "laplacian_entry_written c v s"
  have n: "lap_nnz s < N" using Cons.prems by simp
  have 1: "length (lap_col ?s) = N" "length (lap_val ?s) = N"
    and 2: "lap_nnz ?s = Suc (lap_nnz s)" and 3: "lap_rowptr ?s = lap_rowptr s"
    using Cons.prems by (simp_all add: laplacian_entry_written_def)
  have 4: "take (Suc (lap_nnz s)) (lap_col ?s) = take (lap_nnz s) (lap_col s) @ [c]"
    "take (Suc (lap_nnz s)) (lap_val ?s) = take (lap_nnz s) (lap_val s) @ [v]"
    using n Cons.prems by (simp_all add: laplacian_entry_written_def take_Suc_update)
  have 5: "lap_nnz ?s + length es \<le> N" using Cons.prems 2 by simp
  have f: "fold (\<lambda>(c, v). laplacian_entry_written c v) (e # es) s
           = fold (\<lambda>(c, v). laplacian_entry_written c v) es ?s"
    by (simp add: e)
  have l: "lap_nnz s + length (e # es) = Suc (lap_nnz s) + length es" by simp
  from Cons.IH [OF 1 5] show ?case
    unfolding f l 2 3 4 by (simp add: e)
qed

lemma rocsparse_int_of_Some:
  "rocsparse_int_min \<le> x \<Longrightarrow> x \<le> rocsparse_int_max \<Longrightarrow> rocsparse_int_of x = Some x"
  by (simp add: rocsparse_int_of_def)

lemma index_base_value_range: "0 \<le> index_base_value b \<and> index_base_value b \<le> 1"
  by (cases b) simp_all

lemma cell_index_bound: "i < d \<Longrightarrow> j < d \<Longrightarrow> Suc (i * d + j) \<le> d * d" for i j d :: nat
proof -
  assume a: "i < d" "j < d"
  from a(1) have "Suc i \<le> d" by simp
  then have "Suc i * d \<le> d * d" by (rule mult_le_mono1)
  then have "i * d + d \<le> d * d" by (simp add: add.commute)
  with a(2) show ?thesis by linarith
qed

lemma laplacian_connect_Some:
  assumes "0 \<le> k" and "k + 2 \<le> rocsparse_int_max"
    and "length (lap_col s) = N" and "length (lap_val s) = N" and "lap_nnz s < N"
    and "int N \<le> rocsparse_int_max"
  shows "laplacian_connect k idx_base v s
         = Some (laplacian_entry_written (k + index_base_value idx_base) v s)"
  using assms index_base_value_range [of idx_base]
  by (simp add: laplacian_connect_def laplacian_entry_def rocsparse_int_of_def
        rocsparse_int_min_def)

lemma laplacian_entry_written_simps:
  "lap_nnz (laplacian_entry_written c v s) = Suc (lap_nnz s)"
  "length (lap_col (laplacian_entry_written c v s)) = length (lap_col s)"
  "length (lap_val (laplacian_entry_written c v s)) = length (lap_val s)"
  "lap_rowptr (laplacian_entry_written c v s) = lap_rowptr s"
  by (simp_all add: laplacian_entry_written_def)

lemma laplacian_cell_fold:
  assumes i: "i < d" and j: "j < d"
    and range: "5 * (int d * int d) \<le> rocsparse_int_max"
    and lr: "length (lap_rowptr s) = d * d + 1"
    and lc: "length (lap_col s) = N" and lv: "length (lap_val s) = N"
    and fit: "lap_nnz s
              + length (laplacian_row (int d) (index_base_value idx_base) (i * d + j)) \<le> N"
    and N: "int N \<le> rocsparse_int_max"
  shows "laplacian_cell (int d) idx_base i j s
         = Some (fold (\<lambda>(c, v). laplacian_entry_written c v)
             (laplacian_row (int d) (index_base_value idx_base) (i * d + j))
             (s\<lparr>lap_rowptr := (lap_rowptr s)[i * d + j :=
                   int (lap_nnz s) + index_base_value idx_base]\<rparr>))"
proof -
  let ?b = "index_base_value idx_base"
  define k where "k = i * d + j"
  define D where "D = int d * int d"
  have dm: "k div d = i" "k mod d = j"
    using j by (simp_all add: k_def)
  have "Suc k \<le> d * d" unfolding k_def using i j by (rule cell_index_bound)
  then have kD: "int k < D" unfolding D_def by (metis Suc_le_lessD of_nat_less_iff of_nat_mult)
  have ik: "int i * int d + int j = int k" by (simp add: k_def)
  have id: "int i * int d \<le> int k" using ik by linarith
  have id0: "0 \<le> int i * int d" by simp
  have dD: "int d \<le> D" unfolding D_def using j by (cases d) (simp_all add: algebra_simps)
  have up: "i \<noteq> 0 \<Longrightarrow> int d \<le> int k"
  proof -
    assume "i \<noteq> 0"
    then have "1 \<le> i" by simp
    then have "1 * d \<le> i * d" by (rule mult_le_mono1)
    then show ?thesis unfolding k_def by linarith
  qed
  have left: "j \<noteq> 0 \<Longrightarrow> 1 \<le> int k"
  proof -
    assume "j \<noteq> 0"
    then have "1 \<le> int j" by simp
    with ik id0 show ?thesis by linarith
  qed
  note b = index_base_value_range [of idx_base]
  have r5: "5 * D \<le> rocsparse_int_max" using range by (simp add: D_def)
  have mn: "rocsparse_int_min \<le> 0" by (simp add: rocsparse_int_min_def)
  have t: "rocsparse_int_of (int i * int d) = Some (int i * int d)"
    using id id0 kD r5 mn by (intro rocsparse_int_of_Some) linarith+
  have idx: "rocsparse_int_of (int i * int d + int j) = Some (int k)"
    unfolding ik using kD r5 mn by (intro rocsparse_int_of_Some) linarith+
  have nz: "lap_nnz s < N" using fit by (simp add: laplacian_row_def Let_def)
  have p: "rocsparse_int_of (int (lap_nnz s) + ?b) = Some (int (lap_nnz s) + ?b)"
    using nz N b mn by (intro rocsparse_int_of_Some) linarith+
  have w: "write_at (lap_rowptr s) (int k) x = Some ((lap_rowptr s)[k := x])" for x
    using kD lr by (simp add: write_at_def D_def)
  have last: "rocsparse_int_of (int d - 1) = Some (int d - 1)"
    using dD r5 mn j by (intro rocsparse_int_of_Some) linarith+
  have fit': "lap_nnz s + length (laplacian_row (int d) ?b k) \<le> N"
    using fit by (simp add: k_def)
  note conn = laplacian_connect_Some [where N = N, OF _ _ _ _ _ N]
  have c1: "0 \<le> int k" "int k + 2 \<le> rocsparse_int_max"
    "int k + 1 + 2 \<le> rocsparse_int_max" "int k + int d + 2 \<le> rocsparse_int_max"
    using kD dD r5 j by linarith+
  show ?thesis
    unfolding laplacian_cell_def k_def [symmetric]
    using fit' up left c1 lc lv
    by (auto simp add: t idx p w last conn laplacian_row_def Let_def dm
          laplacian_entry_written_simps)
qed


lemma for_each_snoc:
  "for_each body (xs @ [x]) s
   = (case for_each body xs s of None \<Rightarrow> None | Some s' \<Rightarrow> body x s')"
  by (induction xs arbitrary: s) (auto split: option.splits)

lemma laplacian_total_in_range:
  assumes "0 < d" and "5 * (int d * int d) \<le> rocsparse_int_max"
  shows "int (nat (int d * int d * 5 - int d * 4)) \<le> rocsparse_int_max"
  using assms by simp

lemma laplacian_cell_inv:
  assumes inv: "laplacian_inv (int d) (index_base_value idx_base) (i * d + j) s"
    and i: "i < d" and j: "j < d"
    and range: "5 * (int d * int d) \<le> rocsparse_int_max"
  shows "\<exists>s'. laplacian_cell (int d) idx_base i j s = Some s'
            \<and> laplacian_inv (int d) (index_base_value idx_base) (Suc (i * d + j)) s'"
proof -
  let ?b = "index_base_value idx_base"
  let ?k = "i * d + j"
  let ?N = "nat (int d * int d * 5 - int d * 4)"
  let ?es = "laplacian_row (int d) ?b ?k"
  let ?s = "s\<lparr>lap_rowptr := (lap_rowptr s)[?k := int (lap_nnz s) + ?b]\<rparr>"
  from j have d: "0 < d" by simp
  from inv [unfolded laplacian_inv_def nat_int]
  have lr: "length (lap_rowptr s) = d * d + 1"
    and lc: "length (lap_col s) = ?N" and lv: "length (lap_val s) = ?N"
    and nz: "lap_nnz s = length (laplacian_rows (int d) ?b ?k)"
    and tc: "take (lap_nnz s) (lap_col s) = map fst (laplacian_rows (int d) ?b ?k)"
    and tv: "take (lap_nnz s) (lap_val s) = map snd (laplacian_rows (int d) ?b ?k)"
    and tr: "take ?k (lap_rowptr s)
             = map (\<lambda>r. int (length (laplacian_rows (int d) ?b r)) + ?b) [0..<?k]"
    by blast+
  have kb: "Suc ?k \<le> d * d" using i j by (rule cell_index_bound)
  have "length (laplacian_rows (int d) ?b (Suc ?k))
        \<le> length (laplacian_rows (int d) ?b (d * d))"
    using kb by (rule laplacian_rows_mono)
  also have "\<dots> = ?N"
    using length_laplacian_rows_total [of "int d" ?b] d by simp
  finally have fit0: "lap_nnz s + length ?es \<le> ?N"
    by (simp add: nz laplacian_rows_Suc)
  then have fit: "lap_nnz ?s + length ?es \<le> ?N" by simp
  define s' where "s' = fold (\<lambda>(c, v). laplacian_entry_written c v) ?es ?s"
  have c: "laplacian_cell (int d) idx_base i j s = Some s'"
    unfolding s'_def
    by (rule laplacian_cell_fold [OF i j range lr lc lv fit0
          laplacian_total_in_range [OF d range]])
  from laplacian_entries_fold [of ?s ?N ?es, OF _ _ fit]
  have f: "lap_nnz s' = lap_nnz s + length ?es"
    "length (lap_col s') = ?N"
    "length (lap_val s') = ?N"
    "lap_rowptr s' = lap_rowptr ?s"
    "take (lap_nnz s + length ?es) (lap_col s') = take (lap_nnz s) (lap_col s) @ map fst ?es"
    "take (lap_nnz s + length ?es) (lap_val s') = take (lap_nnz s) (lap_val s) @ map snd ?es"
    unfolding s'_def using lc lv by simp_all
  have g1: "lap_nnz s' = length (laplacian_rows (int d) ?b (Suc ?k))"
    unfolding f(1) nz by (simp add: laplacian_rows_Suc)
  have g2: "take (lap_nnz s') (lap_col s') = map fst (laplacian_rows (int d) ?b (Suc ?k))"
    unfolding f(1) f(5) tc by (simp add: laplacian_rows_Suc)
  have g3: "take (lap_nnz s') (lap_val s') = map snd (laplacian_rows (int d) ?b (Suc ?k))"
    unfolding f(1) f(6) tv by (simp add: laplacian_rows_Suc)
  have "take (Suc ?k) (lap_rowptr ?s) = take ?k (lap_rowptr s) @ [int (lap_nnz s) + ?b]"
    using kb lr by (simp add: take_Suc_update)
  then have g4: "take (Suc ?k) (lap_rowptr s')
           = map (\<lambda>r. int (length (laplacian_rows (int d) ?b r)) + ?b) [0..<Suc ?k]"
    unfolding f(4) tr nz by simp
  have g5: "length (lap_rowptr s') = d * d + 1"
    unfolding f(4) using lr by simp
  have "laplacian_inv (int d) ?b (Suc ?k) s'"
    unfolding laplacian_inv_def nat_int
    by (intro conjI g1 g2 g3 g4 g5 f(2) f(3))
  with c show ?thesis by blast
qed

lemma laplacian_inner_loop_inv:
  assumes "laplacian_inv (int d) (index_base_value idx_base) (i * d) s" and "i < d"
    and "j' \<le> d" and range: "5 * (int d * int d) \<le> rocsparse_int_max"
  shows "\<exists>s'. for_each (\<lambda>j. laplacian_cell (int d) idx_base i j) [0..<j'] s = Some s'
            \<and> laplacian_inv (int d) (index_base_value idx_base) (i * d + j') s'"
  using assms(3)
proof (induction j')
  case 0
  then show ?case using assms(1) by simp
next
  case (Suc j')
  then obtain s1 where
    run: "for_each (\<lambda>j. laplacian_cell (int d) idx_base i j) [0..<j'] s = Some s1"
    and inv: "laplacian_inv (int d) (index_base_value idx_base) (i * d + j') s1"
    and j: "j' < d" by auto
  from laplacian_cell_inv [OF inv assms(2) j range] obtain s2 where
    "laplacian_cell (int d) idx_base i j' s1 = Some s2"
    "laplacian_inv (int d) (index_base_value idx_base) (Suc (i * d + j')) s2" by blast
  with run show ?case by (simp add: for_each_snoc)
qed

lemma laplacian_outer_loop_inv:
  assumes "laplacian_inv (int d) (index_base_value idx_base) 0 s" and "i' \<le> d"
    and range: "5 * (int d * int d) \<le> rocsparse_int_max"
  shows "\<exists>s'. for_each (\<lambda>i. for_each (\<lambda>j. laplacian_cell (int d) idx_base i j) [0..<d])
                 [0..<i'] s = Some s'
            \<and> laplacian_inv (int d) (index_base_value idx_base) (i' * d) s'"
  using assms(2)
proof (induction i')
  case 0
  then show ?case using assms(1) by simp
next
  case (Suc i')
  then obtain s1 where
    run: "for_each (\<lambda>i. for_each (\<lambda>j. laplacian_cell (int d) idx_base i j) [0..<d])
            [0..<i'] s = Some s1"
    and inv: "laplacian_inv (int d) (index_base_value idx_base) (i' * d) s1"
    and i: "i' < d" by auto
  from laplacian_inner_loop_inv [OF inv i order_refl range] obtain s2 where
    "for_each (\<lambda>j. laplacian_cell (int d) idx_base i' j) [0..<d] s1 = Some s2"
    "laplacian_inv (int d) (index_base_value idx_base) (i' * d + d) s2" by blast
  with run show ?case by (simp add: for_each_snoc add.commute)
qed

lemma length_resize [simp]: "length (resize v k) = k"
  by (simp add: resize_def)

lemma laplacian_init_inv:
  "laplacian_inv (int d) b 0
     \<lparr>lap_rowptr = resize rowptr0 (nat (int d * int d + 1)),
      lap_col = resize col0 (nat (int d * int d * 5 - int d * 4)),
      lap_val = resize val0 (nat (int d * int d * 5 - int d * 4)), lap_nnz = 0\<rparr>"
  by (simp add: laplacian_inv_def laplacian_rows_0 nat_add_distrib nat_mult_distrib)

lemma gen_2d_laplacian_closed_form:
  assumes "0 < d" and range: "5 * (int d * int d) \<le> rocsparse_int_max"
  shows "gen_2d_laplacian (int d) rowptr0 col0 val0 idx_base
         = Some (int d * int d,
            map (\<lambda>r. int (length (laplacian_rows (int d) (index_base_value idx_base) r))
                      + index_base_value idx_base) [0..<Suc (d * d)],
            map fst (laplacian_rows (int d) (index_base_value idx_base) (d * d)),
            map snd (laplacian_rows (int d) (index_base_value idx_base) (d * d)))"
proof -
  let ?b = "index_base_value idx_base"
  let ?N = "nat (int d * int d * 5 - int d * 4)"
  let ?s0 = "\<lparr>lap_rowptr = resize rowptr0 (nat (int d * int d + 1)),
      lap_col = resize col0 ?N, lap_val = resize val0 ?N, lap_nnz = 0\<rparr>"
  from laplacian_outer_loop_inv [OF laplacian_init_inv order_refl range]
  obtain s where
    run: "for_each (\<lambda>i. for_each (\<lambda>j. laplacian_cell (int d) idx_base i j) [0..<d])
            [0..<d] ?s0 = Some s"
    and inv: "laplacian_inv (int d) ?b (d * d) s" by blast
  from inv [unfolded laplacian_inv_def nat_int]
  have lr: "length (lap_rowptr s) = d * d + 1"
    and lc: "length (lap_col s) = ?N" and lv: "length (lap_val s) = ?N"
    and nz: "lap_nnz s = length (laplacian_rows (int d) ?b (d * d))"
    and tc: "take (lap_nnz s) (lap_col s) = map fst (laplacian_rows (int d) ?b (d * d))"
    and tv: "take (lap_nnz s) (lap_val s) = map snd (laplacian_rows (int d) ?b (d * d))"
    and tr: "take (d * d) (lap_rowptr s)
             = map (\<lambda>r. int (length (laplacian_rows (int d) ?b r)) + ?b) [0..<d * d]"
    by blast+
  have tot: "lap_nnz s = ?N"
    unfolding nz using length_laplacian_rows_total [of "int d" ?b] assms by simp
  have c: "lap_col s = map fst (laplacian_rows (int d) ?b (d * d))"
    using tc lc tot by simp
  have v: "lap_val s = map snd (laplacian_rows (int d) ?b (d * d))"
    using tv lv tot by simp
  have "take (Suc (d * d)) ((lap_rowptr s)[d * d := int (lap_nnz s) + ?b])
        = take (d * d) (lap_rowptr s) @ [int (lap_nnz s) + ?b]"
    by (rule take_Suc_update) (simp add: lr)
  moreover have "take (Suc (d * d)) ((lap_rowptr s)[d * d := int (lap_nnz s) + ?b])
        = (lap_rowptr s)[d * d := int (lap_nnz s) + ?b]"
    using lr by simp
  ultimately have "(lap_rowptr s)[d * d := int (lap_nnz s) + ?b]
        = take (d * d) (lap_rowptr s) @ [int (lap_nnz s) + ?b]"
    by simp
  also have "\<dots> = map (\<lambda>r. int (length (laplacian_rows (int d) ?b r)) + ?b) [0..<Suc (d * d)]"
    unfolding tr nz by simp
  finally have r: "(lap_rowptr s)[d * d := int (lap_nnz s) + ?b]
        = map (\<lambda>r. int (length (laplacian_rows (int d) ?b r)) + ?b) [0..<Suc (d * d)]" .
  note b = index_base_value_range [of idx_base]
  have mn: "rocsparse_int_min \<le> 0" by (simp add: rocsparse_int_min_def)
  have dd: "0 < int d * int d" using assms(1) by simp
  have d1: "int d \<le> int d * int d" using assms(1) by (cases d) (simp_all add: algebra_simps)
  have e1: "rocsparse_int_of (int d * int d) = Some (int d * int d)"
    using dd range mn by (intro rocsparse_int_of_Some) linarith+
  have e2: "rocsparse_int_of (int d * int d * 5) = Some (int d * int d * 5)"
    using dd range mn by (intro rocsparse_int_of_Some) linarith+
  have e3: "rocsparse_int_of (int d * 4) = Some (int d * 4)"
    using d1 dd range mn by (intro rocsparse_int_of_Some) linarith+
  have e4: "rocsparse_int_of (int d * int d * 5 - int d * 4)
            = Some (int d * int d * 5 - int d * 4)"
    using d1 dd range mn by (intro rocsparse_int_of_Some) linarith+
  have e5: "rocsparse_int_of (int d * int d + 1) = Some (int d * int d + 1)"
    using dd range mn by (intro rocsparse_int_of_Some) linarith+
  have e6: "resize_to rowptr0 (int d * int d + 1)
            = Some (resize rowptr0 (nat (int d * int d + 1)))"
    and e7: "resize_to w (int d * int d * 5 - int d * 4) = Some (resize w ?N)" for w :: "int list"
    using d1 dd by (simp_all add: resize_to_def)
  have "0 < int d" using assms(1) by simp
  then have "int (lap_nnz s) \<le> rocsparse_int_max - 1"
    unfolding tot using d1 dd range by (simp add: nat_less_iff)
  then have e8: "rocsparse_int_of (int (lap_nnz s) + ?b) = Some (int (lap_nnz s) + ?b)"
    using b mn by (intro rocsparse_int_of_Some) linarith+
  have e9: "write_at (lap_rowptr s) (int d * int d) x = Some ((lap_rowptr s)[d * d := x])" for x
    using lr by (simp add: write_at_def nat_mult_distrib)
  have "gen_2d_laplacian (int d) rowptr0 col0 val0 idx_base
        = Some (int d * int d, (lap_rowptr s)[d * d := int (lap_nnz s) + ?b],
                lap_col s, lap_val s)"
    using assms(1)
    by (simp add: gen_2d_laplacian_def e1 e2 e3 e4 e5 e6 e7 run e8 e9)
  then show ?thesis unfolding r c v .
qed

lemma gen_2d_laplacian_overflow:
  assumes "rocsparse_int_max < 5 * (ndim * ndim)"
  shows "gen_2d_laplacian ndim rowptr0 col0 val0 idx_base = None"
  using assms
  by (auto simp add: gen_2d_laplacian_def rocsparse_int_of_def rocsparse_int_max_def
        rocsparse_int_min_def)

lemma laplacian_rows_split:
  "Suc r \<le> k \<Longrightarrow>
   \<exists>rest. laplacian_rows ndim b k = laplacian_rows ndim b r @ laplacian_row ndim b r @ rest"
proof (induction k)
  case 0
  then show ?case by simp
next
  case (Suc k)
  show ?case
  proof (cases "r = k")
    case True
    then show ?thesis by (simp add: laplacian_rows_Suc)
  next
    case False
    with Suc.prems have "Suc r \<le> k" by simp
    from Suc.IH [OF this] obtain rest where
      "laplacian_rows ndim b k = laplacian_rows ndim b r @ laplacian_row ndim b r @ rest" ..
    then show ?thesis by (simp add: laplacian_rows_Suc)
  qed
qed

lemma laplacian_row_cols_sorted:
  assumes "0 < d"
  shows "sorted_wrt (<) (map fst (laplacian_row (int d) b r))"
proof -
  have 1: "r mod d \<noteq> 0 \<Longrightarrow> 1 < d"
    by (metis assms mod_by_Suc_0 Suc_lessI One_nat_def)
  have 2: "int (r mod d) \<noteq> int d - 1 \<Longrightarrow> 1 < d"
    using assms by (cases "d = 1") auto
  show ?thesis
    using assms 1 2 by (auto simp add: laplacian_row_def Let_def)
qed

lemma laplacian_row_diag: "int r + b \<in> set (map fst (laplacian_row ndim b r))"
  by (simp add: laplacian_row_def Let_def)

lemma laplacian_row_vals:
  assumes "0 < d"
  shows "map snd (laplacian_row (int d) b r)
         = map (\<lambda>c. if c = int r + b then 4 else - 1) (map fst (laplacian_row (int d) b r))"
  using assms by (simp add: laplacian_row_def Let_def)

lemma csr_row_laplacian:
  assumes "r < d * d"
  shows "csr_row (map (\<lambda>r. int (length (laplacian_rows ndim b r)) + b) [0..<Suc (d * d)])
           (map g (laplacian_rows ndim b (d * d))) b r
         = map g (laplacian_row ndim b r)"
proof -
  let ?rp = "map (\<lambda>r. int (length (laplacian_rows ndim b r)) + b) [0..<Suc (d * d)]"
  from assms have "Suc r \<le> d * d" by simp
  from laplacian_rows_split [OF this] obtain rest where
    sp: "laplacian_rows ndim b (d * d) = laplacian_rows ndim b r @ laplacian_row ndim b r @ rest"
    ..
  have n0: "?rp ! r = int (length (laplacian_rows ndim b r)) + b"
    using assms by (simp only: nth_map_upt) simp
  have n1: "?rp ! Suc r = int (length (laplacian_rows ndim b (Suc r))) + b"
    using assms by (simp only: nth_map_upt) simp
  have w: "nat (?rp ! Suc r - ?rp ! r) = length (laplacian_row ndim b r)"
    unfolding n0 n1 by (simp add: laplacian_rows_Suc)
  have o: "nat (?rp ! r - b) = length (laplacian_rows ndim b r)"
    unfolding n0 by simp
  show ?thesis
    unfolding csr_row_def w o sp by simp
qed

lemma laplacian_rowptr_sorted:
  "sorted (map (\<lambda>r. int (length (laplacian_rows ndim b r)) + b) [0..<n])"
  by (auto simp add: sorted_iff_nth_mono laplacian_rows_mono)

text \<open>
  C9 (as amended). \<open>rocsparse_int\<close> has 32 bits. For every \<open>ndim \<ge> 1\<close> with
  \<open>5 * ndim * ndim \<le> 2147483647\<close> (that is, \<open>ndim \<le> 20724\<close>),
  \<open>gen_2d_laplacian\<close> returns \<open>n = ndim * ndim\<close>; the number of entries filled is
  \<open>nnz = 5 * ndim * ndim - 4 * ndim\<close>, which is the length of \<open>col\<close> and of
  \<open>val\<close>, and every position of the three vectors is written (the result does not
  depend on what they held); \<open>rowptr\<close> has length \<open>n + 1\<close>, starts with
  \<open>idx_base\<close>, ends with \<open>nnz + idx_base\<close> and is non-decreasing; in each row
  \<open>r\<close> the column indices are strictly increasing, the diagonal column
  \<open>r + idx_base\<close> is present, and the value is 4 on the diagonal and -1 elsewhere.
  For every \<open>ndim\<close> with \<open>5 * ndim * ndim > 2147483647\<close> the computation of
  \<open>n\<close> or of \<open>nnz_mat\<close> overflows and the run has no defined result. For
  \<open>ndim = 0\<close> it returns 0 and leaves the vectors as they were.
\<close>

theorem gen_2d_laplacian_csr:
  "(1 \<le> ndim \<and> 5 * (ndim * ndim) \<le> rocsparse_int_max \<longrightarrow>
      (\<exists>n rowptr' col' val'.
           gen_2d_laplacian ndim rowptr_in col_in val_in idx_base
             = Some (n, rowptr', col', val')
           \<and> n = ndim * ndim
           \<and> length col' = nat (5 * ndim * ndim - 4 * ndim)
           \<and> length val' = nat (5 * ndim * ndim - 4 * ndim)
           \<and> length rowptr' = nat n + 1
           \<and> rowptr' ! 0 = index_base_value idx_base
           \<and> rowptr' ! nat n = 5 * ndim * ndim - 4 * ndim + index_base_value idx_base
           \<and> sorted rowptr'
           \<and> (\<forall>r < nat n.
                 sorted_wrt (<) (csr_row rowptr' col' (index_base_value idx_base) r)
                 \<and> int r + index_base_value idx_base
                     \<in> set (csr_row rowptr' col' (index_base_value idx_base) r)
                 \<and> csr_row rowptr' val' (index_base_value idx_base) r
                     = map (\<lambda>c. if c = int r + index_base_value idx_base then 4 else - 1)
                         (csr_row rowptr' col' (index_base_value idx_base) r)))
      \<and> gen_2d_laplacian ndim rowptr_in col_in val_in idx_base
          = gen_2d_laplacian ndim [] [] [] idx_base)
   \<and> (rocsparse_int_max < 5 * (ndim * ndim) \<longrightarrow>
        gen_2d_laplacian ndim rowptr_in col_in val_in idx_base = None)
   \<and> gen_2d_laplacian 0 rowptr_in col_in val_in idx_base
       = Some (0, rowptr_in, col_in, val_in)"
proof (intro conjI impI)
  show "gen_2d_laplacian 0 rowptr_in col_in val_in idx_base
        = Some (0, rowptr_in, col_in, val_in)"
    by (simp add: gen_2d_laplacian_def)
next
  assume "rocsparse_int_max < 5 * (ndim * ndim)"
  then show "gen_2d_laplacian ndim rowptr_in col_in val_in idx_base = None"
    by (rule gen_2d_laplacian_overflow)
next
  assume a: "1 \<le> ndim \<and> 5 * (ndim * ndim) \<le> rocsparse_int_max"
  define d where "d = nat ndim"
  with a have d: "ndim = int d" "0 < d" by simp_all
  from a have range: "5 * (int d * int d) \<le> rocsparse_int_max" unfolding d by simp
  show "gen_2d_laplacian ndim rowptr_in col_in val_in idx_base
          = gen_2d_laplacian ndim [] [] [] idx_base"
    unfolding d by (simp only: gen_2d_laplacian_closed_form [OF d(2) range])
next
  assume a: "1 \<le> ndim \<and> 5 * (ndim * ndim) \<le> rocsparse_int_max"
  define d where "d = nat ndim"
  with a have d: "ndim = int d" "0 < d" by simp_all
  from a have range: "5 * (int d * int d) \<le> rocsparse_int_max" unfolding d by simp
  let ?b = "index_base_value idx_base"
  let ?rp = "map (\<lambda>r. int (length (laplacian_rows (int d) ?b r)) + ?b) [0..<Suc (d * d)]"
  let ?E = "laplacian_rows (int d) ?b (d * d)"
  have tot: "length ?E = nat (5 * int d * int d - 4 * int d)"
    using length_laplacian_rows_total [of "int d" ?b] d(2)
    by (simp add: algebra_simps)
  have tot': "int (length ?E) = 5 * int d * int d - 4 * int d"
    using length_laplacian_rows_full [OF d(2), of d ?b] d(2)
    by (simp add: algebra_simps)
  have n: "nat (int d * int d) = d * d" by (simp add: nat_mult_distrib)
  have r0: "?rp ! 0 = ?b"
    by (simp only: nth_map_upt) (simp add: laplacian_rows_0)
  have rn: "?rp ! (d * d) = 5 * int d * int d - 4 * int d + ?b"
    by (simp only: nth_map_upt tot' [symmetric]) simp
  have rows: "\<forall>r < d * d.
       sorted_wrt (<) (csr_row ?rp (map fst ?E) ?b r)
       \<and> int r + ?b \<in> set (csr_row ?rp (map fst ?E) ?b r)
       \<and> csr_row ?rp (map snd ?E) ?b r
           = map (\<lambda>c. if c = int r + ?b then 4 else - 1) (csr_row ?rp (map fst ?E) ?b r)"
  proof (intro allI impI)
    fix r
    assume r: "r < d * d"
    have c: "csr_row ?rp (map fst ?E) ?b r = map fst (laplacian_row (int d) ?b r)"
      and v: "csr_row ?rp (map snd ?E) ?b r = map snd (laplacian_row (int d) ?b r)"
      using r by (rule csr_row_laplacian)+
    show "sorted_wrt (<) (csr_row ?rp (map fst ?E) ?b r)
       \<and> int r + ?b \<in> set (csr_row ?rp (map fst ?E) ?b r)
       \<and> csr_row ?rp (map snd ?E) ?b r
           = map (\<lambda>c. if c = int r + ?b then 4 else - 1) (csr_row ?rp (map fst ?E) ?b r)"
      unfolding c v
      by (intro conjI laplacian_row_cols_sorted [OF d(2)] laplacian_row_diag
            laplacian_row_vals [OF d(2)])
  qed
  have props: "int d * int d = int d * int d
           \<and> length (map fst ?E) = nat (5 * int d * int d - 4 * int d)
           \<and> length (map snd ?E) = nat (5 * int d * int d - 4 * int d)
           \<and> length ?rp = nat (int d * int d) + 1
           \<and> ?rp ! 0 = ?b
           \<and> ?rp ! nat (int d * int d) = 5 * int d * int d - 4 * int d + ?b
           \<and> sorted ?rp
           \<and> (\<forall>r < nat (int d * int d).
                 sorted_wrt (<) (csr_row ?rp (map fst ?E) ?b r)
                 \<and> int r + ?b \<in> set (csr_row ?rp (map fst ?E) ?b r)
                 \<and> csr_row ?rp (map snd ?E) ?b r
                     = map (\<lambda>c. if c = int r + ?b then 4 else - 1)
                         (csr_row ?rp (map fst ?E) ?b r))"
    unfolding n
    using tot r0 rn rows laplacian_rowptr_sorted [of "int d" ?b "Suc (d * d)"]
    by (intro conjI) simp_all
  show "\<exists>n rowptr' col' val'.
           gen_2d_laplacian ndim rowptr_in col_in val_in idx_base
             = Some (n, rowptr', col', val')
           \<and> n = ndim * ndim
           \<and> length col' = nat (5 * ndim * ndim - 4 * ndim)
           \<and> length val' = nat (5 * ndim * ndim - 4 * ndim)
           \<and> length rowptr' = nat n + 1
           \<and> rowptr' ! 0 = index_base_value idx_base
           \<and> rowptr' ! nat n = 5 * ndim * ndim - 4 * ndim + index_base_value idx_base
           \<and> sorted rowptr'
           \<and> (\<forall>r < nat n.
                 sorted_wrt (<) (csr_row rowptr' col' (index_base_value idx_base) r)
                 \<and> int r + index_base_value idx_base
                     \<in> set (csr_row rowptr' col' (index_base_value idx_base) r)
                 \<and> csr_row rowptr' val' (index_base_value idx_base) r
                     = map (\<lambda>c. if c = int r + index_base_value idx_base then 4 else - 1)
                         (csr_row rowptr' col' (index_base_value idx_base) r))"
    unfolding d
    apply (rule exI [of _ "int d * int d"])
    apply (rule exI [of _ ?rp])
    apply (rule exI [of _ "map fst ?E"])
    apply (rule exI [of _ "map snd ?E"])
    apply (rule conjI)
     apply (rule gen_2d_laplacian_closed_form [OF d(2) range])
    apply (rule props)
    done
qed

theorem gen_2d_laplacian_csr_witness:
  "(1::int) \<le> 2 \<and> 5 * (2 * 2) \<le> rocsparse_int_max
   \<and> map_option fst (gen_2d_laplacian 2 [] [] [] rocsparse_index_base_one) = Some 4
   \<and> map_option (\<lambda>r. length (fst (snd r)))
        (gen_2d_laplacian 2 [] [] [] rocsparse_index_base_one) = Some 5
   \<and> map_option (\<lambda>r. fst (snd r) ! 4)
        (gen_2d_laplacian 2 [] [] [] rocsparse_index_base_one) = Some 13"
  using gen_2d_laplacian_csr [where ndim = 2 and rowptr_in = "[]" and col_in = "[]"
      and val_in = "[]" and idx_base = rocsparse_index_base_one]
  by (auto simp add: rocsparse_int_max_def)

text \<open>
  With \<open>ndim = 20725\<close> the claim promises \<open>n = 429525625\<close> and
  \<open>5 * n - 4 * ndim = 2147545225\<close> entries, more than the largest \<open>rocsparse_int\<close>:
  the product \<open>n * 5\<close> overflows and the run has no defined result.
\<close>

theorem gen_2d_laplacian_overflow_counterexample:
  "gen_2d_laplacian 20725 [] [] [] rocsparse_index_base_zero = None"
  by (simp add: gen_2d_laplacian_def rocsparse_int_of_def rocsparse_int_max_def
        rocsparse_int_min_def)

section \<open>Properties of the random CSR generator\<close>

subsection \<open>The sampling loop\<close>

lemma smod_nonneg_range:
  "0 < k \<Longrightarrow> 0 \<le> int r smod k \<and> int r smod k < k"
  by (simp add: signed_modulo_int_def sgn_if)

lemma take_Suc_drop_update:
  assumes "x + n < length v"
  shows "take (Suc n) (drop x (v[x + n := c])) = take n (drop x v) @ [c]"
proof -
  have "drop x (v[x + n := c]) = (drop x v)[n := c]"
    by (simp add: drop_update_swap)
  moreover have "n < length (drop x v)" using assms by simp
  ultimately show ?thesis by (simp add: take_Suc_conv_app_nth)
qed

lemma init_index_loop_inv:
  assumes "rocsparse_init_index_loop x count start end check num v rands = Some (v', rands')"
    and "0 \<le> end - start" and "length check = nat (end - start)"
    and "0 \<le> x" and "num \<le> nat count"
    and "num = 0 \<or> nat x + num \<le> length v"
    and "\<forall>k < length check. check ! k \<longleftrightarrow> start + int k \<in> set (take num (drop (nat x) v))"
    and "distinct (take num (drop (nat x) v))"
    and "\<forall>c \<in> set (take num (drop (nat x) v)). start \<le> c \<and> c < end"
  shows "length v' = length v \<and> take (nat x) v' = take (nat x) v
       \<and> (nat count = 0 \<or> nat x + nat count \<le> length v')
       \<and> distinct (take (nat count) (drop (nat x) v'))
       \<and> (\<forall>c \<in> set (take (nat count) (drop (nat x) v')). start \<le> c \<and> c < end)"
  using assms
proof (induction x count start "end" check num v rands
       rule: rocsparse_init_index_loop.induct)
  case (1 x count start "end" check num v)
  then have "\<not> int num < count" and v: "v' = v" by (auto split: if_splits)
  with "1.prems" have "num = nat count" by simp
  with "1.prems" v show ?case by simp
next
  case (2 x count start "end" check num v r rands)
  show ?case
  proof (cases "int num < count")
    case False
    with "2.prems" have v: "v' = v" by simp
    from False "2.prems" have "num = nat count" by simp
    with "2.prems" v show ?thesis by simp
  next
    case True
    with "2.prems"(1) have ne: "end - start \<noteq> 0" by (auto split: if_splits)
    with "2.prems"(2) have pos: "0 < end - start" by simp
    define val where "val = start + int r smod (end - start)"
    from smod_nonneg_range [OF pos, of r]
    have vr: "start \<le> val" "val < end" by (simp_all add: val_def)
    let ?idx = "nat (val - start)"
    have idx: "?idx < length check" "start + int ?idx = val"
      using vr "2.prems"(3) by simp_all
    show ?thesis
    proof (cases "check ! ?idx")
      case True
      with \<open>int num < count\<close> ne "2.prems"(1)
      have "rocsparse_init_index_loop x count start end check num v rands = Some (v', rands')"
        by (simp add: val_def [symmetric] Let_def)
      moreover from True have "\<not> \<not> check ! ?idx" by simp
      ultimately show ?thesis
        using "2.IH"(2) [OF \<open>int num < count\<close> ne val_def] "2.prems"(2-9) by blast
    next
      case False
      let ?W = "take num (drop (nat x) v)"
      from False idx "2.prems"(7) have fresh: "val \<notin> set ?W" by auto
      from False \<open>int num < count\<close> ne "2.prems"(1)
      have g: "0 \<le> x + int num \<and> x + int num < int (length v)"
        by (auto simp add: val_def [symmetric] Let_def split: if_splits)
      let ?v = "v[nat (x + int num) := val]"
      let ?check = "check[?idx := True]"
      from False \<open>int num < count\<close> ne g "2.prems"(1)
      have run: "rocsparse_init_index_loop x count start end ?check (num + 1) ?v rands
                 = Some (v', rands')"
        by (simp add: val_def [symmetric] Let_def)
      have pos_eq: "nat (x + int num) = nat x + num"
        using "2.prems"(4) by (simp add: nat_add_distrib)
      have lt: "nat x + num < length v" using g pos_eq by linarith
      have W: "take (num + 1) (drop (nat x) ?v) = ?W @ [val]"
        unfolding pos_eq using lt by (simp add: take_Suc_drop_update)
      have p3: "length ?check = nat (end - start)" using "2.prems"(3) by simp
      have p5: "num + 1 \<le> nat count" using \<open>int num < count\<close> by simp
      have p6: "num + 1 = 0 \<or> nat x + (num + 1) \<le> length ?v" using lt by simp
      have p7: "\<forall>k < length ?check. ?check ! k
                  \<longleftrightarrow> start + int k \<in> set (take (num + 1) (drop (nat x) ?v))"
        unfolding W using "2.prems"(7) idx
        by (auto simp add: nth_list_update)
      have p8: "distinct (take (num + 1) (drop (nat x) ?v))"
        unfolding W using "2.prems"(8) fresh by simp
      have p9: "\<forall>c \<in> set (take (num + 1) (drop (nat x) ?v)). start \<le> c \<and> c < end"
        unfolding W using "2.prems"(9) vr by simp
      from "2.IH"(1) [OF \<open>int num < count\<close> ne val_def False g run "2.prems"(2) p3
          "2.prems"(4) p5 p6 p7 p8 p9]
      have "length v' = length ?v \<and> take (nat x) v' = take (nat x) ?v
       \<and> (nat count = 0 \<or> nat x + nat count \<le> length v')
       \<and> distinct (take (nat count) (drop (nat x) v'))
       \<and> (\<forall>c \<in> set (take (nat count) (drop (nat x) v')). start \<le> c \<and> c < end)"
        .
      then show ?thesis unfolding pos_eq by auto
    qed
  qed
qed

lemma sort_range_props:
  assumes "n = 0 \<or> x + n \<le> length v"
  shows "length (sort_range v x n) = length v"
    and "take x (sort_range v x n) = take x v"
    and "take n (drop x (sort_range v x n)) = sort (take n (drop x v))"
  using assms by (auto simp add: sort_range_def)

lemma sort_range_id:
  assumes "sorted (take n (drop x v))"
  shows "sort_range v x n = v"
proof -
  have "take n (drop x v) @ drop (x + n) v = drop x v"
    by (metis add.commute append_take_drop_id drop_drop)
  then show ?thesis
    using assms by (simp add: sort_range_def sorted_sort_id)
qed

lemma init_index_props:
  assumes "rocsparse_init_index x count start end v rands = Some (v', rands')" and "0 \<le> x"
  shows "length v' = length v \<and> take (nat x) v' = take (nat x) v
       \<and> (nat count = 0 \<or> nat x + nat count \<le> length v')
       \<and> sorted_wrt (<) (take (nat count) (drop (nat x) v'))
       \<and> (\<forall>c \<in> set (take (nat count) (drop (nat x) v')). start \<le> c \<and> c < end)"
proof -
  from assms(1) have nn: "0 \<le> end - start"
    by (auto simp add: rocsparse_init_index_def split: if_splits)
  from assms(1) nn obtain w where
    run: "rocsparse_init_index_loop x count start end (replicate (nat (end - start)) False)
            0 v rands = Some (w, rands')"
    and v': "v' = sort_range w (nat x) (nat count)"
    by (auto simp add: rocsparse_init_index_def split: option.splits if_splits)
  have "length w = length v \<and> take (nat x) w = take (nat x) v
       \<and> (nat count = 0 \<or> nat x + nat count \<le> length w)
       \<and> distinct (take (nat count) (drop (nat x) w))
       \<and> (\<forall>c \<in> set (take (nat count) (drop (nat x) w)). start \<le> c \<and> c < end)"
    by (rule init_index_loop_inv [OF run nn _ assms(2)]) simp_all
  then have l: "length w = length v" and t: "take (nat x) w = take (nat x) v"
    and b: "nat count = 0 \<or> nat x + nat count \<le> length w"
    and d: "distinct (take (nat count) (drop (nat x) w))"
    and r: "\<forall>c \<in> set (take (nat count) (drop (nat x) w)). start \<le> c \<and> c < end"
    by blast+
  note sp = sort_range_props [OF b]
  have "sorted_wrt (<) (sort (take (nat count) (drop (nat x) w)))"
    using d by (simp add: strict_sorted_iff)
  moreover have "\<forall>c \<in> set (sort (take (nat count) (drop (nat x) w))). start \<le> c \<and> c < end"
    using r by simp
  ultimately show ?thesis
    unfolding v' sp using l t b by simp
qed

lemma slice_of_prefix:
  "take n (drop x v) = drop x (take (x + n) v)"
  by (simp add: drop_take)

lemma slice_cong:
  assumes "take (x + n) v = take (x + n) w"
  shows "take n (drop x v) = take n (drop x w)"
  by (simp only: slice_of_prefix assms)

lemma take_take_cong:
  assumes "take b v = take b w" and "a \<le> b"
  shows "take a v = take a w"
proof -
  have "take a v = take a (take b v)" using assms(2) by (simp add: min_def)
  also have "\<dots> = take a (take b w)" by (simp only: assms(1))
  also have "\<dots> = take a w" using assms(2) by (simp add: min_def)
  finally show ?thesis .
qed

subsection \<open>The loops over the rows\<close>

lemma init_csr_columns_props:
  assumes "init_csr_columns ncol ptr [i0..<n] v rands = Some (v', rands')"
    and sp: "sorted ptr" and n: "n < length ptr" and nn: "\<forall>p \<in> set ptr. 0 \<le> p"
  shows "take (nat (ptr ! i0)) v' = take (nat (ptr ! i0)) v
       \<and> (\<forall>i. i0 \<le> i \<and> i < n \<longrightarrow>
            sorted_wrt (<) (csr_row ptr v' 0 i)
            \<and> (\<forall>c \<in> set (csr_row ptr v' 0 i). 0 \<le> c \<and> c < ncol - 1)
            \<and> int (length (csr_row ptr v' 0 i)) = ptr ! Suc i - ptr ! i)"
  using assms(1)
proof (induction "n - i0" arbitrary: i0 v rands)
  case 0
  then have "[i0..<n] = []" and "n \<le> i0" by simp_all
  with "0.prems" show ?case by auto
next
  case (Suc k)
  then have i0: "i0 < n" by simp
  then have upt: "[i0..<n] = i0 # [Suc i0..<n]" by (rule upt_conv_Cons)
  let ?x = "nat (ptr ! i0)"
  let ?c = "nat (ptr ! Suc i0 - ptr ! i0)"
  have p0: "0 \<le> ptr ! i0" using nn i0 n by simp
  have mono: "ptr ! i0 \<le> ptr ! Suc i0"
    using sp i0 n by (simp add: sorted_iff_nth_mono)
  have xc: "?x + ?c = nat (ptr ! Suc i0)" using p0 mono by simp
  from Suc.prems obtain v1 rs1 where
    ii: "rocsparse_init_index (ptr ! i0) (ptr ! Suc i0 - ptr ! i0) 0 (ncol - 1) v rands
         = Some (v1, rs1)"
    and rest: "init_csr_columns ncol ptr [Suc i0..<n] (sort_range v1 ?x ?c) rs1
               = Some (v', rands')"
    unfolding upt by (auto split: option.splits)
  from init_index_props [OF ii p0]
  have t1: "take ?x v1 = take ?x v"
    and b1: "?c = 0 \<or> ?x + ?c \<le> length v1"
    and s1: "sorted_wrt (<) (take ?c (drop ?x v1))"
    and r1: "\<forall>c \<in> set (take ?c (drop ?x v1)). 0 \<le> c \<and> c < ncol - 1"
    by blast+
  from s1 have "sorted (take ?c (drop ?x v1))"
    by (simp add: strict_sorted_iff)
  then have id: "sort_range v1 ?x ?c = v1" by (rule sort_range_id)
  have k: "k = n - Suc i0" using Suc.hyps(2) by simp
  from Suc.hyps(1) [OF k rest [unfolded id]]
  have t2: "take (nat (ptr ! Suc i0)) v' = take (nat (ptr ! Suc i0)) v1"
    and later: "\<forall>i. Suc i0 \<le> i \<and> i < n \<longrightarrow>
            sorted_wrt (<) (csr_row ptr v' 0 i)
            \<and> (\<forall>c \<in> set (csr_row ptr v' 0 i). 0 \<le> c \<and> c < ncol - 1)
            \<and> int (length (csr_row ptr v' 0 i)) = ptr ! Suc i - ptr ! i"
    by blast+
  have t2': "take (?x + ?c) v' = take (?x + ?c) v1" unfolding xc by (rule t2)
  have row: "csr_row ptr v' 0 i0 = take ?c (drop ?x v1)"
    unfolding csr_row_def using slice_cong [OF t2'] by simp
  have len: "int (length (take ?c (drop ?x v1))) = ptr ! Suc i0 - ptr ! i0"
    using b1 mono by auto
  have this_row: "sorted_wrt (<) (csr_row ptr v' 0 i0)
            \<and> (\<forall>c \<in> set (csr_row ptr v' 0 i0). 0 \<le> c \<and> c < ncol - 1)
            \<and> int (length (csr_row ptr v' 0 i0)) = ptr ! Suc i0 - ptr ! i0"
    unfolding row using s1 r1 len by blast
  have "take ?x v' = take ?x v1"
    by (rule take_take_cong [OF t2']) simp
  then have pre: "take ?x v' = take ?x v" using t1 by simp
  have all: "\<forall>i. i0 \<le> i \<and> i < n \<longrightarrow>
            sorted_wrt (<) (csr_row ptr v' 0 i)
            \<and> (\<forall>c \<in> set (csr_row ptr v' 0 i). 0 \<le> c \<and> c < ncol - 1)
            \<and> int (length (csr_row ptr v' 0 i)) = ptr ! Suc i - ptr ! i"
  proof (intro allI impI)
    fix i
    assume "i0 \<le> i \<and> i < n"
    then consider "i = i0" | "Suc i0 \<le> i \<and> i < n" by linarith
    then show "sorted_wrt (<) (csr_row ptr v' 0 i)
            \<and> (\<forall>c \<in> set (csr_row ptr v' 0 i). 0 \<le> c \<and> c < ncol - 1)
            \<and> int (length (csr_row ptr v' 0 i)) = ptr ! Suc i - ptr ! i"
    proof cases
      case 1
      then show ?thesis using this_row by simp
    next
      case 2
      then show ?thesis using later by blast
    qed
  qed
  from pre all show ?case by blast
qed

lemma init_csr_row_offsets_props:
  assumes "init_csr_row_offsets nnz is ptr rands = Some (ptr', rands')" and "2 \<le> nnz"
  shows "length ptr' = length ptr
       \<and> (\<forall>k. k \<notin> set is \<longrightarrow> ptr' ! k = ptr ! k)
       \<and> (\<forall>k \<in> set is. k < length ptr \<longrightarrow> 1 \<le> ptr' ! k \<and> ptr' ! k \<le> nnz - 1)"
  using assms
proof (induction nnz "is" ptr rands rule: init_csr_row_offsets.induct)
  case (1 nnz ptr rands)
  then show ?case by simp
next
  case (2 nnz i "is" ptr)
  then show ?case by simp
next
  case (3 nnz i "is" ptr r rands)
  from "3.prems"(2) have pos: "0 < nnz - 1" by simp
  define w where "w = int r smod (nnz - 1) + 1"
  from smod_nonneg_range [OF pos, of r] have w: "1 \<le> w" "w \<le> nnz - 1"
    by (simp_all add: w_def)
  from "3.prems"(1) pos
  have run: "init_csr_row_offsets nnz is (ptr[i := w]) rands = Some (ptr', rands')"
    by (simp add: w_def)
  from pos have ne: "nnz - 1 \<noteq> 0" by simp
  from "3.IH" [OF ne run [unfolded w_def] "3.prems"(2)]
  have l: "length ptr' = length ptr"
    and same: "\<forall>k. k \<notin> set is \<longrightarrow> ptr' ! k = ptr[i := w] ! k"
    and rng: "\<forall>k \<in> set is. k < length ptr \<longrightarrow> 1 \<le> ptr' ! k \<and> ptr' ! k \<le> nnz - 1"
    by (simp_all add: w_def)
  have a: "\<forall>k. k \<notin> set (i # is) \<longrightarrow> ptr' ! k = ptr ! k"
    using same by simp
  have b: "\<forall>k \<in> set (i # is). k < length ptr \<longrightarrow> 1 \<le> ptr' ! k \<and> ptr' ! k \<le> nnz - 1"
  proof (intro ballI impI)
    fix k
    assume k: "k \<in> set (i # is)" and kl: "k < length ptr"
    show "1 \<le> ptr' ! k \<and> ptr' ! k \<le> nnz - 1"
    proof (cases "k \<in> set is")
      case True
      with rng kl show ?thesis by blast
    next
      case False
      with k have "k = i" by simp
      with False same kl have "ptr' ! k = w" by simp
      with w show ?thesis by simp
    qed
  qed
  from l a b show ?case by blast
qed

lemma sorted_first:
  assumes "sorted xs" and "m \<in> set xs" and "\<forall>y \<in> set xs. m \<le> y"
  shows "xs ! 0 = (m :: int)"
proof -
  from assms(2) obtain k where k: "k < length xs" "xs ! k = m"
    by (auto simp add: in_set_conv_nth)
  then have "xs ! 0 \<le> m" using assms(1) by (auto simp add: sorted_iff_nth_mono)
  moreover have "xs ! 0 \<in> set xs" using k by (auto intro: nth_mem)
  ultimately show ?thesis using assms(3) by fastforce
qed

lemma sorted_last:
  assumes "sorted xs" and "m \<in> set xs" and "\<forall>y \<in> set xs. y \<le> m"
  shows "xs ! (length xs - 1) = (m :: int)"
proof -
  from assms(2) obtain k where k: "k < length xs" "xs ! k = m"
    by (auto simp add: in_set_conv_nth)
  then have "m \<le> xs ! (length xs - 1)"
    using assms(1) by (auto simp add: sorted_iff_nth_mono)
  moreover have "xs ! (length xs - 1) \<in> set xs" using k by (auto intro: nth_mem)
  ultimately show ?thesis using assms(3) by fastforce
qed

lemma init_csr_ptr_props:
  assumes nrow: "1 \<le> nrow" and nnz: "2 \<le> nnz" and len: "length ptr = nat nrow + 1"
    and run: "init_csr_row_offsets nnz [1..<nat nrow]
                (list_update (list_update ptr 0 0) (nat nrow) nnz) rands = Some (ptr1, rands1)"
  shows "length (sort ptr1) = nat nrow + 1 \<and> sort ptr1 ! 0 = 0
       \<and> sort ptr1 ! nat nrow = nnz \<and> (\<forall>p \<in> set (sort ptr1). 0 \<le> p \<and> p \<le> nnz)"
proof -
  let ?p0 = "list_update (list_update ptr 0 0) (nat nrow) nnz"
  from init_csr_row_offsets_props [OF run nnz]
  have l: "length ptr1 = length ?p0"
    and same: "\<forall>k. k \<notin> set [1..<nat nrow] \<longrightarrow> ptr1 ! k = ?p0 ! k"
    and rng: "\<forall>k \<in> set [1..<nat nrow]. k < length ?p0 \<longrightarrow> 1 \<le> ptr1 ! k \<and> ptr1 ! k \<le> nnz - 1"
    by blast+
  have l1: "length ptr1 = nat nrow + 1" using l len by simp
  have z: "ptr1 ! 0 = 0" using same nrow len by simp
  have e: "ptr1 ! nat nrow = nnz" using same nrow len by simp
  have all: "\<forall>k < length ptr1. 0 \<le> ptr1 ! k \<and> ptr1 ! k \<le> nnz"
  proof (intro allI impI)
    fix k
    assume k: "k < length ptr1"
    consider "k = 0" | "k = nat nrow" | "k \<in> set [1..<nat nrow]"
      using k l1 by force
    then show "0 \<le> ptr1 ! k \<and> ptr1 ! k \<le> nnz"
    proof cases
      case 1
      then show ?thesis using z nnz by simp
    next
      case 2
      then show ?thesis using e nnz by simp
    next
      case 3
      with rng k l have "1 \<le> ptr1 ! k \<and> ptr1 ! k \<le> nnz - 1" by simp
      then show ?thesis by simp
    qed
  qed
  then have bounds: "\<forall>y \<in> set (sort ptr1). 0 \<le> y \<and> y \<le> nnz"
    by (auto simp add: in_set_conv_nth)
  have zin: "0 \<in> set (sort ptr1)" using z l1 by (metis nth_mem set_sort zero_less_Suc Suc_eq_plus1)
  have ein: "nnz \<in> set (sort ptr1)"
    using e l1 by (metis nth_mem set_sort lessI Suc_eq_plus1)
  have s: "sorted (sort ptr1)" by simp
  have f: "sort ptr1 ! 0 = 0"
    using s zin bounds by (intro sorted_first) auto
  have "sort ptr1 ! (length (sort ptr1) - 1) = nnz"
    using s ein bounds by (intro sorted_last) auto
  then have g: "sort ptr1 ! nat nrow = nnz" using l1 by simp
  from l1 f g bounds show ?thesis by simp
qed

subsection \<open>Runs that return\<close>

lemma smod_nat: "0 < k \<Longrightarrow> int r smod k = int (r mod nat k)"
  by (simp add: signed_modulo_int_def sgn_if zmod_int)

lemma draws_0: "draws s p 0 = []"
  by (simp add: draws_def)

lemma draws_Suc: "draws s p (Suc l) = s p # draws s (Suc p) l"
  unfolding draws_def by (subst upt_rec) simp

lemma draws_add: "draws s p (l1 + l2) = draws s p l1 @ draws s (p + l1) l2"
  by (induction l1 arbitrary: p) (simp_all add: draws_0 draws_Suc)

lemma length_draws: "length (draws s p l) = l"
  by (simp add: draws_def)

lemma fair_counting_source: "fair_source counting_source K"
proof -
  have "\<exists>q \<ge> p. q mod K = v" if "v < K" for p v
  proof (intro exI conjI)
    from that have "p \<le> p * K" by (cases K) simp_all
    then show "p \<le> p * K + v" by linarith
    from that show "(p * K + v) mod K = v" by simp
  qed
  then show ?thesis by (simp add: fair_source_def counting_source_def)
qed

lemma init_index_loop_done:
  "\<not> int num < count \<Longrightarrow>
   rocsparse_init_index_loop x count start end check num v rands = Some (v, rands)"
  by (cases rands) simp_all

lemma init_index_loop_seen:
  assumes "int num < count" and "0 < end - start" and "check ! (r mod nat (end - start))"
  shows "rocsparse_init_index_loop x count start end check num v (r # rands)
         = rocsparse_init_index_loop x count start end check num v rands"
  using assms by (simp add: Let_def smod_nat)

lemma init_index_loop_fresh:
  assumes "int num < count" and "0 < end - start"
    and "\<not> check ! (r mod nat (end - start))" and "0 \<le> x" and "nat x + num < length v"
  shows "rocsparse_init_index_loop x count start end check num v (r # rands)
         = rocsparse_init_index_loop x count start end
             (check[r mod nat (end - start) := True]) (Suc num)
             (v[nat x + num := start + int (r mod nat (end - start))]) rands"
proof -
  have "nat (x + int num) = nat x + num" using assms(4) by (simp add: nat_add_distrib)
  moreover have "x + int num < int (length v)" using assms(4,5) by linarith
  ultimately show ?thesis using assms by (simp add: Let_def smod_nat)
qed

lemma init_index_loop_skip:
  assumes "int num < count" and "0 < end - start"
  shows "\<forall>q. p \<le> q \<and> q < p + n \<longrightarrow> check ! (s q mod nat (end - start)) \<Longrightarrow>
         rocsparse_init_index_loop x count start end check num v (draws s p n @ rest)
         = rocsparse_init_index_loop x count start end check num v rest"
proof (induction n arbitrary: p)
  case 0
  then show ?case by (simp add: draws_0)
next
  case (Suc n)
  from Suc.prems have here: "check ! (s p mod nat (end - start))" by simp
  from Suc.prems
  have later: "\<forall>q. Suc p \<le> q \<and> q < Suc p + n \<longrightarrow> check ! (s q mod nat (end - start))"
    by simp
  have "rocsparse_init_index_loop x count start end check num v (draws s p (Suc n) @ rest)
        = rocsparse_init_index_loop x count start end check num v
            (draws s (Suc p) n @ rest)"
    unfolding draws_Suc append_Cons by (rule init_index_loop_seen [OF assms here])
  also have "\<dots> = rocsparse_init_index_loop x count start end check num v rest"
    by (rule Suc.IH [OF later])
  finally show ?case .
qed

lemma unseen_update:
  assumes "i < length check" and "\<not> check ! i"
  shows "card {k. k < length (check[i := True]) \<and> \<not> check[i := True] ! k}
         = card {k. k < length check \<and> \<not> check ! k} - 1"
proof -
  have "{k. k < length (check[i := True]) \<and> \<not> check[i := True] ! k}
        = {k. k < length check \<and> \<not> check ! k} - {i}"
    using assms(1) by (auto simp add: nth_list_update)
  moreover have "i \<in> {k. k < length check \<and> \<not> check ! k}" using assms by simp
  ultimately show ?thesis by simp
qed

lemma init_index_loop_total:
  assumes fair: "fair_source s (nat (end - start))"
    and K: "0 < end - start" and x: "0 \<le> x"
  shows "length check = nat (end - start) \<Longrightarrow> nat x + nat count \<le> length v \<Longrightarrow>
         nat count - num \<le> card {k. k < length check \<and> \<not> check ! k} \<Longrightarrow>
         \<exists>l v'. \<forall>more. rocsparse_init_index_loop x count start end check num v
                          (draws s p l @ more) = Some (v', more)"
proof (induction "nat count - num" arbitrary: check num v p)
  case 0
  then have "\<not> int num < count" by linarith
  then have "\<forall>more. rocsparse_init_index_loop x count start end check num v
                      (draws s p 0 @ more) = Some (v, more)"
    by (simp add: draws_0 init_index_loop_done)
  then show ?case by blast
next
  case (Suc m)
  let ?K = "nat (end - start)"
  let ?U = "{k. k < length check \<and> \<not> check ! k}"
  from Suc.hyps(2) have lt: "int num < count" by linarith
  from Suc.hyps(2) Suc.prems(3) have "0 < card ?U" by linarith
  then have "?U \<noteq> {}" by (metis card.empty less_numeral_extra(3))
  then obtain u where u: "u < length check" "\<not> check ! u" by blast
  from fair u(1) Suc.prems(1) obtain q1 where "p \<le> q1" "s q1 mod ?K = u"
    unfolding fair_source_def by metis
  with u(2) have ex: "p \<le> q1 \<and> \<not> check ! (s q1 mod ?K)" by simp
  define q0 where "q0 = (LEAST q. p \<le> q \<and> \<not> check ! (s q mod ?K))"
  from ex have q0: "p \<le> q0 \<and> \<not> check ! (s q0 mod ?K)"
    unfolding q0_def by (rule LeastI)
  have before: "\<forall>q. p \<le> q \<and> q < p + (q0 - p) \<longrightarrow> check ! (s q mod ?K)"
  proof (intro allI impI)
    fix q
    assume "p \<le> q \<and> q < p + (q0 - p)"
    with q0 have "p \<le> q" "q < q0" by simp_all
    from not_less_Least [OF this(2) [unfolded q0_def]] this(1)
    show "check ! (s q mod ?K)" by simp
  qed
  let ?i = "s q0 mod ?K"
  let ?check = "check[?i := True]"
  let ?v = "v[nat x + num := start + int ?i]"
  from K have il: "?i < length check" using Suc.prems(1) by simp
  have fit: "nat x + num < length v" using Suc.prems(2) lt by linarith
  have m: "m = nat count - Suc num" using Suc.hyps(2) by simp
  have p1: "length ?check = ?K" using Suc.prems(1) by simp
  have p2: "nat x + nat count \<le> length ?v" using Suc.prems(2) by simp
  have p3: "nat count - Suc num \<le> card {k. k < length ?check \<and> \<not> ?check ! k}"
    unfolding unseen_update [OF il conjunct2 [OF q0]] using Suc.prems(3) by linarith
  from Suc.hyps(1) [OF m p1 p2 p3, of "Suc q0"] obtain l v' where
    rest: "\<forall>more. rocsparse_init_index_loop x count start end ?check (Suc num) ?v
                    (draws s (Suc q0) l @ more) = Some (v', more)"
    by blast
  have "rocsparse_init_index_loop x count start end check num v
          (draws s p ((q0 - p) + Suc l) @ more) = Some (v', more)" for more
  proof -
    have pq: "p + (q0 - p) = q0" using q0 by simp
    have "rocsparse_init_index_loop x count start end check num v
            (draws s p ((q0 - p) + Suc l) @ more)
          = rocsparse_init_index_loop x count start end check num v
              (draws s p (q0 - p) @ (s q0 # draws s (Suc q0) l @ more))"
      by (simp only: draws_add pq draws_Suc append_assoc append_Cons)
    also have "\<dots> = rocsparse_init_index_loop x count start end check num v
              (s q0 # draws s (Suc q0) l @ more)"
      by (rule init_index_loop_skip [OF lt K before])
    also have "\<dots> = rocsparse_init_index_loop x count start end ?check (Suc num) ?v
              (draws s (Suc q0) l @ more)"
      by (rule init_index_loop_fresh [OF lt K conjunct2 [OF q0] x fit])
    also have "\<dots> = Some (v', more)" using rest by blast
    finally show ?thesis .
  qed
  then show ?case by blast
qed

lemma init_index_total:
  assumes fair: "fair_source s (nat (end - start))"
    and c0: "0 \<le> count" and cK: "count \<le> end - start"
    and x: "0 \<le> x" and fit: "nat x + nat count \<le> length v"
  shows "\<exists>l v'. \<forall>more. rocsparse_init_index x count start end v (draws s p l @ more)
                        = Some (v', more)"
proof (cases "count = 0")
  case True
  then have "\<forall>more. rocsparse_init_index x count start end v (draws s p 0 @ more)
                  = Some (sort_range v (nat x) (nat count), more)"
    using cK by (simp add: rocsparse_init_index_def draws_0 init_index_loop_done)
  then show ?thesis by blast
next
  case False
  with c0 cK have K: "0 < end - start" by simp
  have "{k. k < length (replicate (nat (end - start)) False)
            \<and> \<not> replicate (nat (end - start)) False ! k} = {..<nat (end - start)}"
    by auto
  then have "card {k. k < length (replicate (nat (end - start)) False)
                 \<and> \<not> replicate (nat (end - start)) False ! k} = nat (end - start)"
    by simp
  then have room: "nat count - 0
                   \<le> card {k. k < length (replicate (nat (end - start)) False)
                              \<and> \<not> replicate (nat (end - start)) False ! k}"
    using cK by simp
  from init_index_loop_total [OF fair K x _ fit room, of p] obtain l w where
    "\<forall>more. rocsparse_init_index_loop x count start end
              (replicate (nat (end - start)) False) 0 v (draws s p l @ more)
            = Some (w, more)"
    by auto
  then have "\<forall>more. rocsparse_init_index x count start end v (draws s p l @ more)
                  = Some (sort_range w (nat x) (nat count), more)"
    using K c0 by (simp add: rocsparse_init_index_def)
  then show ?thesis by blast
qed

lemma init_csr_columns_total:
  assumes fair: "fair_source s (nat (ncol - 1))"
    and sp: "sorted ptr" and n: "n < length ptr"
    and nn: "\<forall>p \<in> set ptr. 0 \<le> p \<and> p \<le> nnz"
    and wide: "nnz \<le> ncol - 1"
  shows "nat nnz \<le> length v \<Longrightarrow>
         \<exists>l v'. \<forall>more. init_csr_columns ncol ptr [i0..<n] v (draws s p l @ more)
                        = Some (v', more)"
proof (induction "n - i0" arbitrary: i0 v p)
  case 0
  then have e: "[i0..<n] = []" by simp
  have "\<forall>more. init_csr_columns ncol ptr [i0..<n] v (draws s p 0 @ more)
                  = Some (v, more)"
    unfolding e by (simp add: draws_0)
  then show ?case by blast
next
  case (Suc k)
  then have i0: "i0 < n" by simp
  then have upt: "[i0..<n] = i0 # [Suc i0..<n]" by (rule upt_conv_Cons)
  let ?x = "ptr ! i0"
  let ?c = "ptr ! Suc i0 - ptr ! i0"
  have p0: "0 \<le> ?x" using nn i0 n by simp
  have mono: "ptr ! i0 \<le> ptr ! Suc i0"
    using sp i0 n by (simp add: sorted_iff_nth_mono)
  have top: "ptr ! Suc i0 \<le> nnz" using nn i0 n by simp
  have c0: "0 \<le> ?c" using mono by simp
  have cK: "?c \<le> (ncol - 1) - 0" using top p0 wide by simp
  have fit: "nat ?x + nat ?c \<le> length v" using p0 mono top Suc.prems by linarith
  from init_index_total [OF _ c0 cK p0 fit, of s p] fair obtain l1 v1 where
    ii: "\<forall>more. rocsparse_init_index ?x ?c 0 (ncol - 1) v (draws s p l1 @ more)
                = Some (v1, more)"
    by auto
  from ii have "rocsparse_init_index ?x ?c 0 (ncol - 1) v (draws s p l1 @ []) = Some (v1, [])"
    by blast
  from init_index_props [OF this p0] have l1: "length v1 = length v" by blast
  let ?v2 = "sort_range v1 (nat ?x) (nat ?c)"
  have "length ?v2 = length v1"
    by (rule sort_range_props(1)) (use fit l1 in simp)
  then have fit2: "nat nnz \<le> length ?v2" using l1 Suc.prems by simp
  have k: "k = n - Suc i0" using Suc.hyps(2) by simp
  from Suc.hyps(1) [OF k fit2, of "p + l1"] obtain l2 v' where
    rest: "\<forall>more. init_csr_columns ncol ptr [Suc i0..<n] ?v2 (draws s (p + l1) l2 @ more)
                  = Some (v', more)"
    by blast
  have "init_csr_columns ncol ptr [i0..<n] v (draws s p (l1 + l2) @ more) = Some (v', more)"
    for more
    unfolding upt draws_add using ii rest by simp
  then show ?case by blast
qed

lemma init_csr_row_offsets_total:
  assumes "nnz - 1 \<noteq> 0"
  shows "length rs = length is \<Longrightarrow>
         \<exists>ptr'. \<forall>more. init_csr_row_offsets nnz is ptr (rs @ more) = Some (ptr', more)"
proof (induction "is" arbitrary: ptr rs)
  case Nil
  then show ?case by simp
next
  case (Cons i "is")
  then obtain r rs' where rs: "rs = r # rs'" "length rs' = length is"
    by (cases rs) simp_all
  from Cons.IH [OF rs(2), of "ptr[i := int r smod (nnz - 1) + 1]"] assms
  show ?case unfolding rs(1) by simp
qed

lemma init_csr_values_total:
  "length rs = length is \<Longrightarrow> \<forall>i \<in> set is. i < length v \<Longrightarrow>
   \<exists>v'. \<forall>more. init_csr_values is v (rs @ more) = Some (v', more)"
proof (induction "is" arbitrary: v rs)
  case Nil
  then show ?case by simp
next
  case (Cons i "is")
  then obtain r rs' where rs: "rs = r # rs'" "length rs' = length is"
    by (cases rs) simp_all
  from Cons.prems(2) have "\<forall>k \<in> set is. k < length (v[i := int (r mod 10 + 1)])" by simp
  from Cons.IH [OF rs(2) this] Cons.prems(2)
  show ?case unfolding rs(1) by simp
qed

lemma init_csr_total:
  assumes nrow: "1 \<le> nrow" and nnz: "2 \<le> nnz" and len: "length ptr = nat nrow + 1"
    and wide: "nnz \<le> ncol - 1"
    and lc: "nat nnz \<le> length col_ind" and lv: "nat nnz \<le> length val_arr"
    and fair: "fair_source s (nat (ncol - 1))"
  shows "\<exists>l ptr' col' val'. \<forall>more.
           rocsparse_init_csr ptr col_ind val_arr nrow ncol nnz (draws s 0 l @ more)
           = Some (ptr', col', val', more)"
proof -
  define p0 where "p0 = list_update (list_update ptr 0 0) (nat nrow) nnz"
  define a where "a = nat nrow - 1"
  define rows where "rows = [1..<nat nrow]"
  have ne: "nnz - 1 \<noteq> 0" using nnz by simp
  have la: "length (draws s 0 a) = length rows" by (simp add: length_draws a_def rows_def)
  from init_csr_row_offsets_total [OF ne la, of p0] obtain ptr1 where
    off: "\<forall>more. init_csr_row_offsets nnz rows p0 (draws s 0 a @ more) = Some (ptr1, more)"
    by blast
  then have off0: "init_csr_row_offsets nnz rows p0 (draws s 0 a @ []) = Some (ptr1, [])"
    by blast
  from init_csr_ptr_props [OF nrow nnz len off0 [unfolded rows_def p0_def]]
  have l: "length (sort ptr1) = nat nrow + 1"
    and bounds: "\<forall>p \<in> set (sort ptr1). 0 \<le> p \<and> p \<le> nnz"
    by blast+
  have s: "sorted (sort ptr1)" by simp
  have n: "nat nrow < length (sort ptr1)" using l by simp
  from init_csr_columns_total [OF fair s n bounds wide lc, where ?i0.0 = 0 and p = a]
  obtain l2 col' where
    cols: "\<forall>more. init_csr_columns ncol (sort ptr1) [0..<nat nrow] col_ind
                    (draws s a l2 @ more) = Some (col', more)"
    by blast
  have lvs: "length (draws s (a + l2) (nat nnz)) = length [0..<nat nnz]"
    by (simp add: length_draws)
  have inside: "\<forall>i \<in> set [0..<nat nnz]. i < length val_arr" using lv by simp
  from init_csr_values_total [OF lvs inside] obtain val' where
    vals: "\<forall>more. init_csr_values [0..<nat nnz] val_arr
                    (draws s (a + l2) (nat nnz) @ more) = Some (val', more)"
    by blast
  have ok: "0 \<le> nrow \<and> nat nrow < length ptr" using nrow len by simp
  have "rocsparse_init_csr ptr col_ind val_arr nrow ncol nnz
          (draws s 0 (a + (l2 + nat nnz)) @ more) = Some (sort ptr1, col', val', more)"
    for more
  proof -
    have d: "draws s 0 (a + (l2 + nat nnz)) @ more
             = draws s 0 a @ (draws s a l2 @ (draws s (a + l2) (nat nnz) @ more))"
      by (simp add: draws_add)
    have 1: "init_csr_row_offsets nnz rows p0
               (draws s 0 a @ (draws s a l2 @ (draws s (a + l2) (nat nnz) @ more)))
             = Some (ptr1, draws s a l2 @ (draws s (a + l2) (nat nnz) @ more))"
      using off by blast
    have 2: "init_csr_columns ncol (sort ptr1) [0..<nat nrow] col_ind
               (draws s a l2 @ (draws s (a + l2) (nat nnz) @ more))
             = Some (col', draws s (a + l2) (nat nnz) @ more)"
      using cols by blast
    have 3: "init_csr_values [0..<nat nnz] val_arr (draws s (a + l2) (nat nnz) @ more)
             = Some (val', more)"
      using vals by blast
    show ?thesis
      unfolding rocsparse_init_csr_def d rows_def [symmetric] p0_def [symmetric] Let_def
      using ok by (simp add: 1 2 3)
  qed
  then show ?thesis by blast
qed

lemma init_csr_returned_props:
  assumes "1 \<le> nrow" and "2 \<le> nnz" and "length ptr = nat nrow + 1"
    and "rocsparse_init_csr ptr col_ind val_arr nrow ncol nnz rands
         = Some (ptr', col', val', rands')"
  shows "length ptr' = nat nrow + 1 \<and> ptr' ! 0 = 0 \<and> ptr' ! nat nrow = nnz \<and> sorted ptr'
       \<and> (\<forall>i < nat nrow.
             sorted_wrt (<) (csr_row ptr' col' 0 i)
             \<and> (\<forall>c \<in> set (csr_row ptr' col' 0 i). 0 \<le> c \<and> c \<le> ncol - 2)
             \<and> int (length (csr_row ptr' col' 0 i)) = ptr' ! Suc i - ptr' ! i)"
proof -
  from assms(1,3) have ok: "0 \<le> nrow \<and> nat nrow < length ptr" by simp
  from assms(4) ok obtain ptr1 rands1 rands2 where
    off: "init_csr_row_offsets nnz [1..<nat nrow]
            (list_update (list_update ptr 0 0) (nat nrow) nnz) rands = Some (ptr1, rands1)"
    and p: "ptr' = sort ptr1"
    and cols: "init_csr_columns ncol (sort ptr1) [0..<nat nrow] col_ind rands1
               = Some (col', rands2)"
    by (auto simp add: rocsparse_init_csr_def Let_def split: option.splits)
  from init_csr_ptr_props [OF assms(1-3) off]
  have l: "length ptr' = nat nrow + 1" and z: "ptr' ! 0 = 0" and e: "ptr' ! nat nrow = nnz"
    and nn: "\<forall>p \<in> set ptr'. 0 \<le> p"
    unfolding p by blast+
  have s: "sorted ptr'" unfolding p by simp
  have n: "nat nrow < length ptr'" using l by simp
  from init_csr_columns_props [OF cols [folded p] s n nn]
  have "\<forall>i. 0 \<le> i \<and> i < nat nrow \<longrightarrow>
            sorted_wrt (<) (csr_row ptr' col' 0 i)
            \<and> (\<forall>c \<in> set (csr_row ptr' col' 0 i). 0 \<le> c \<and> c < ncol - 1)
            \<and> int (length (csr_row ptr' col' 0 i)) = ptr' ! Suc i - ptr' ! i"
    by blast
  then have rows: "\<forall>i < nat nrow.
             sorted_wrt (<) (csr_row ptr' col' 0 i)
             \<and> (\<forall>c \<in> set (csr_row ptr' col' 0 i). 0 \<le> c \<and> c \<le> ncol - 2)
             \<and> int (length (csr_row ptr' col' 0 i)) = ptr' ! Suc i - ptr' ! i"
    by fastforce
  from l z e s rows show ?thesis by blast
qed

text \<open>
  C10 (as amended). Let \<open>nrow \<ge> 1\<close> and \<open>nnz \<ge> 2\<close>, and let \<open>ptr\<close> hold
  exactly \<open>nrow + 1\<close> entries, the length of a row-pointer array
  (\<open>std::sort(ptr.begin(), ptr.end())\<close> runs over the whole vector). Every run of
  \<open>rocsparse_init_csr\<close> that returns leaves \<open>nrow + 1\<close> row pointers with
  \<open>ptr[0] = 0\<close> and \<open>ptr[nrow] = nnz\<close> that are non-decreasing, and in each row
  column indices that are strictly increasing, hence distinct, as many as the row
  pointers say, and that lie in \<open>[0, ncol - 2]\<close>: the last column \<open>ncol - 1\<close> is
  never generated. And there are such runs: when \<open>ncol\<close> is large enough for every
  row to be sampled, \<open>nnz \<le> ncol - 1\<close>, and \<open>col\<close> and \<open>val\<close> hold at least
  \<open>nnz\<close> entries, the run returns after finitely many calls of \<open>rand()\<close> on every
  random source that is fair for the modulus \<open>ncol - 1\<close>, whatever the later calls
  would return; in particular some run returns.
\<close>

theorem rocsparse_init_csr_structure:
  assumes "1 \<le> nrow" and "2 \<le> nnz" and "length ptr = nat nrow + 1"
  shows "(\<forall>rands ptr' col' val' rands'.
            rocsparse_init_csr ptr col_ind val_arr nrow ncol nnz rands
              = Some (ptr', col', val', rands') \<longrightarrow>
            length ptr' = nat nrow + 1 \<and> ptr' ! 0 = 0 \<and> ptr' ! nat nrow = nnz
            \<and> sorted ptr'
            \<and> (\<forall>i < nat nrow.
                  sorted_wrt (<) (csr_row ptr' col' 0 i)
                  \<and> (\<forall>c \<in> set (csr_row ptr' col' 0 i). 0 \<le> c \<and> c \<le> ncol - 2)
                  \<and> int (length (csr_row ptr' col' 0 i)) = ptr' ! Suc i - ptr' ! i))
       \<and> (nnz \<le> ncol - 1 \<and> nat nnz \<le> length col_ind \<and> nat nnz \<le> length val_arr \<longrightarrow>
            (\<forall>s. fair_source s (nat (ncol - 1)) \<longrightarrow>
                 (\<exists>l ptr' col' val'. \<forall>more.
                    rocsparse_init_csr ptr col_ind val_arr nrow ncol nnz (draws s 0 l @ more)
                    = Some (ptr', col', val', more)))
            \<and> (\<exists>rands ptr' col' val'.
                  rocsparse_init_csr ptr col_ind val_arr nrow ncol nnz rands
                  = Some (ptr', col', val', [])))"
proof (rule conjI)
  show "\<forall>rands ptr' col' val' rands'.
            rocsparse_init_csr ptr col_ind val_arr nrow ncol nnz rands
              = Some (ptr', col', val', rands') \<longrightarrow>
            length ptr' = nat nrow + 1 \<and> ptr' ! 0 = 0 \<and> ptr' ! nat nrow = nnz
            \<and> sorted ptr'
            \<and> (\<forall>i < nat nrow.
                  sorted_wrt (<) (csr_row ptr' col' 0 i)
                  \<and> (\<forall>c \<in> set (csr_row ptr' col' 0 i). 0 \<le> c \<and> c \<le> ncol - 2)
                  \<and> int (length (csr_row ptr' col' 0 i)) = ptr' ! Suc i - ptr' ! i)"
  proof (intro allI impI)
    fix rands ptr' col' val' rands'
    assume "rocsparse_init_csr ptr col_ind val_arr nrow ncol nnz rands
            = Some (ptr', col', val', rands')"
    with assms show "length ptr' = nat nrow + 1 \<and> ptr' ! 0 = 0 \<and> ptr' ! nat nrow = nnz
            \<and> sorted ptr'
            \<and> (\<forall>i < nat nrow.
                  sorted_wrt (<) (csr_row ptr' col' 0 i)
                  \<and> (\<forall>c \<in> set (csr_row ptr' col' 0 i). 0 \<le> c \<and> c \<le> ncol - 2)
                  \<and> int (length (csr_row ptr' col' 0 i)) = ptr' ! Suc i - ptr' ! i)"
      by (rule init_csr_returned_props)
  qed
next
  show "nnz \<le> ncol - 1 \<and> nat nnz \<le> length col_ind \<and> nat nnz \<le> length val_arr \<longrightarrow>
            (\<forall>s. fair_source s (nat (ncol - 1)) \<longrightarrow>
                 (\<exists>l ptr' col' val'. \<forall>more.
                    rocsparse_init_csr ptr col_ind val_arr nrow ncol nnz (draws s 0 l @ more)
                    = Some (ptr', col', val', more)))
            \<and> (\<exists>rands ptr' col' val'.
                  rocsparse_init_csr ptr col_ind val_arr nrow ncol nnz rands
                  = Some (ptr', col', val', []))"
  proof (rule impI)
    assume "nnz \<le> ncol - 1 \<and> nat nnz \<le> length col_ind \<and> nat nnz \<le> length val_arr"
    then have wide: "nnz \<le> ncol - 1" and lc: "nat nnz \<le> length col_ind"
      and lv: "nat nnz \<le> length val_arr" by simp_all
    note total = init_csr_total [OF assms wide lc lv]
    have every: "\<forall>s. fair_source s (nat (ncol - 1)) \<longrightarrow>
                 (\<exists>l ptr' col' val'. \<forall>more.
                    rocsparse_init_csr ptr col_ind val_arr nrow ncol nnz (draws s 0 l @ more)
                    = Some (ptr', col', val', more))"
      using total by blast
    from total [OF fair_counting_source] obtain l ptr' col' val' where
      "rocsparse_init_csr ptr col_ind val_arr nrow ncol nnz (draws counting_source 0 l @ [])
       = Some (ptr', col', val', [])"
      by blast
    then have some: "\<exists>rands ptr' col' val'.
                  rocsparse_init_csr ptr col_ind val_arr nrow ncol nnz rands
                  = Some (ptr', col', val', [])"
      by blast
    from every some show "(\<forall>s. fair_source s (nat (ncol - 1)) \<longrightarrow>
                 (\<exists>l ptr' col' val'. \<forall>more.
                    rocsparse_init_csr ptr col_ind val_arr nrow ncol nnz (draws s 0 l @ more)
                    = Some (ptr', col', val', more)))
            \<and> (\<exists>rands ptr' col' val'.
                  rocsparse_init_csr ptr col_ind val_arr nrow ncol nnz rands
                  = Some (ptr', col', val', []))"
      by (rule conjI)
  qed
qed

theorem rocsparse_init_csr_structure_witness:
  "rocsparse_init_csr [9, 9, 9, 9] [7, 7, 7, 7, 7] [0, 0, 0, 0, 0] 3 7 5
     [3, 6, 2, 2, 0, 1, 1, 2, 0, 5, 6, 7, 8, 9, 10, 11]
   = Some ([0, 3, 4, 5], [0, 1, 2, 1, 2], [1, 6, 7, 8, 9], [9, 10, 11])
   \<and> sorted_wrt (<) (csr_row [0, 3, 4, 5] [0, 1, 2, 1, 2 :: int] 0 0)
   \<and> int (length (csr_row [0, 3, 4, 5] [0, 1, 2, 1, 2 :: int] 0 0)) = 3
   \<and> (\<exists>l ptr' col' val'.
         rocsparse_init_csr [9, 9, 9, 9] [7, 7, 7, 7, 7] [0, 0, 0, 0, 0] 3 7 5
           (draws counting_source 0 l) = Some (ptr', col', val', []))"
proof -
  have run: "rocsparse_init_csr [9, 9, 9, 9] [7, 7, 7, 7, 7] [0, 0, 0, 0, 0] 3 7 5
     [3, 6, 2, 2, 0, 1, 1, 2, 0, 5, 6, 7, 8, 9, 10, 11]
   = Some ([0, 3, 4, 5], [0, 1, 2, 1, 2], [1, 6, 7, 8, 9], [9, 10, 11])"
    by code_simp
  have h1: "(1::int) \<le> 3" and h2: "(2::int) \<le> 5"
    and h3: "length [9, 9, 9, 9 :: int] = nat 3 + 1" by simp_all
  note t = rocsparse_init_csr_structure [OF h1 h2 h3,
      where col_ind = "[7, 7, 7, 7, 7]" and val_arr = "[0, 0, 0, 0, 0]" and ncol = 7]
  from t run
  have "\<forall>i < nat 3.
         sorted_wrt (<) (csr_row [0, 3, 4, 5] [0, 1, 2, 1, 2 :: int] 0 i)
         \<and> (\<forall>c \<in> set (csr_row [0, 3, 4, 5] [0, 1, 2, 1, 2 :: int] 0 i). 0 \<le> c \<and> c \<le> 7 - 2)
         \<and> int (length (csr_row [0, 3, 4, 5] [0, 1, 2, 1, 2 :: int] 0 i))
             = [0, 3, 4, 5] ! Suc i - [0, 3, 4, 5] ! i"
    by blast
  then have rows: "sorted_wrt (<) (csr_row [0, 3, 4, 5] [0, 1, 2, 1, 2 :: int] 0 0)
         \<and> int (length (csr_row [0, 3, 4, 5] [0, 1, 2, 1, 2 :: int] 0 0))
             = [0, 3, 4, 5] ! Suc 0 - [0, 3, 4, 5] ! 0"
    by simp
  have h4: "(5::int) \<le> 7 - 1 \<and> nat 5 \<le> length [7, 7, 7, 7, 7 :: int]
            \<and> nat 5 \<le> length [0, 0, 0, 0, 0 :: int]"
    by simp
  from t h4 fair_counting_source [of "nat (7 - 1)"]
  have "\<exists>l ptr' col' val'. \<forall>more.
          rocsparse_init_csr [9, 9, 9, 9] [7, 7, 7, 7, 7] [0, 0, 0, 0, 0] 3 7 5
            (draws counting_source 0 l @ more) = Some (ptr', col', val', more)"
    by blast
  then obtain l ptr' col' val' where
    "rocsparse_init_csr [9, 9, 9, 9] [7, 7, 7, 7, 7] [0, 0, 0, 0, 0] 3 7 5
       (draws counting_source 0 l @ []) = Some (ptr', col', val', [])"
    by blast
  then have ex: "\<exists>l ptr' col' val'.
         rocsparse_init_csr [9, 9, 9, 9] [7, 7, 7, 7, 7] [0, 0, 0, 0, 0] 3 7 5
           (draws counting_source 0 l) = Some (ptr', col', val', [])"
    by auto
  from run rows ex show ?thesis by simp
qed

text \<open>
  A row-pointer vector with more than \<open>nrow + 1\<close> entries: with \<open>nrow = 1\<close>,
  \<open>nnz = 2\<close>, \<open>ncol = 3\<close> and \<open>ptr\<close> holding \<open>9, 9, 1\<close>, the vector is
  \<open>0, 2, 1\<close> before it is sorted as a whole and \<open>0, 1, 2\<close> after: the run returns
  with \<open>ptr[nrow] = 1\<close>, which is not \<open>nnz\<close>.
\<close>

theorem rocsparse_init_csr_long_ptr_counterexample:
  "rocsparse_init_csr [9, 9, 1] [7, 7] [0, 0] 1 3 2 [0, 0, 0]
   = Some ([0, 1, 2], [0, 7], [1, 1], [])
   \<and> [0, 1, 2] ! nat 1 \<noteq> (2 :: int)"
  by code_simp

section \<open>Properties of the level schedule\<close>

lemma row_dependencies_before:
  assumes "j \<in> set (row_dependencies A i)"
  shows "j < view_row_count A \<and> before_in_solve_order (view_fill_mode A) j i"
  using assms by (auto simp add: row_dependencies_def Let_def)

lemma row_level_cong:
  assumes "\<forall>j \<in> set (row_dependencies A i). ls ! j = ls' ! j"
  shows "row_level A ls i = row_level A ls' i"
proof -
  have "map (\<lambda>j. ls ! j) (row_dependencies A i) = map (\<lambda>j. ls' ! j) (row_dependencies A i)"
    using assms by simp
  then show ?thesis by (simp add: row_level_def)
qed

lemma assign_levels_fixpoint:
  assumes "distinct rows" and "\<forall>i \<in> set rows. i < length ls"
    and "\<forall>k < length rows. set (row_dependencies A (rows ! k)) \<subseteq> finished \<union> set (take k rows)"
    and "finished \<inter> set rows = {}"
  shows "length (assign_levels A rows ls) = length ls
       \<and> (\<forall>j. j \<notin> set rows \<longrightarrow> assign_levels A rows ls ! j = ls ! j)
       \<and> (\<forall>i \<in> set rows. assign_levels A rows ls ! i
                             = row_level A (assign_levels A rows ls) i)"
  using assms
proof (induction rows arbitrary: ls finished)
  case Nil
  then show ?case by simp
next
  case (Cons i rows)
  let ?ls = "ls[i := row_level A ls i]"
  let ?r = "assign_levels A rows ?ls"
  have d: "distinct rows" and ni: "i \<notin> set rows" using Cons.prems(1) by simp_all
  have b: "\<forall>i \<in> set rows. i < length ?ls" using Cons.prems(2) by simp
  have il: "i < length ls" using Cons.prems(2) by simp
  have dep: "\<forall>k < length rows.
               set (row_dependencies A (rows ! k)) \<subseteq> insert i finished \<union> set (take k rows)"
  proof (intro allI impI)
    fix k
    assume "k < length rows"
    then have "Suc k < length (i # rows)" by simp
    with Cons.prems(3)
    have "set (row_dependencies A ((i # rows) ! Suc k))
          \<subseteq> finished \<union> set (take (Suc k) (i # rows))"
      by blast
    then show "set (row_dependencies A (rows ! k)) \<subseteq> insert i finished \<union> set (take k rows)"
      by auto
  qed
  have dis: "insert i finished \<inter> set rows = {}" using Cons.prems(4) ni by auto
  from Cons.IH [OF d b dep dis]
  have l: "length ?r = length ?ls"
    and same: "\<forall>j. j \<notin> set rows \<longrightarrow> ?r ! j = ?ls ! j"
    and others: "\<forall>i' \<in> set rows. ?r ! i' = row_level A ?r i'"
    by blast+
  have di: "set (row_dependencies A i) \<subseteq> finished"
    using Cons.prems(3) by force
  have unch: "\<forall>j \<in> set (row_dependencies A i). ?r ! j = ls ! j"
  proof
    fix j
    assume "j \<in> set (row_dependencies A i)"
    with di have jf: "j \<in> finished" by blast
    with Cons.prems(4) have "j \<noteq> i" "j \<notin> set rows" by auto
    with same show "?r ! j = ls ! j" by simp
  qed
  have "?r ! i = ?ls ! i" using same ni by simp
  also have "\<dots> = row_level A ls i" using il by simp
  also have "\<dots> = row_level A ?r i" using unch by (intro row_level_cong) simp
  finally have this_row: "?r ! i = row_level A ?r i" .
  have 1: "length (assign_levels A (i # rows) ls) = length ls" using l by simp
  have 2: "\<forall>j. j \<notin> set (i # rows) \<longrightarrow> assign_levels A (i # rows) ls ! j = ls ! j"
    using same by simp
  have 3: "\<forall>i' \<in> set (i # rows). assign_levels A (i # rows) ls ! i'
                             = row_level A (assign_levels A (i # rows) ls) i'"
    using others this_row by simp
  from 1 2 3 show ?case by blast
qed

lemma solve_order_props:
  "distinct (solve_order A) \<and> set (solve_order A) = {0..<view_row_count A}"
  by (cases "view_fill_mode A") (simp_all add: solve_order_def)

lemma solve_order_dependencies:
  assumes "k < length (solve_order A)"
  shows "set (row_dependencies A (solve_order A ! k)) \<subseteq> set (take k (solve_order A))"
proof (cases "view_fill_mode A")
  case rocsparse_fill_mode_lower
  then have so: "solve_order A = [0..<view_row_count A]" by (simp add: solve_order_def)
  from assms have k: "k < view_row_count A" by (simp add: so)
  have tk: "set (take k [0..<view_row_count A]) = {0..<k}" using k by simp
  show ?thesis
    unfolding so
  proof (rule subsetI)
    fix j
    assume "j \<in> set (row_dependencies A ([0..<view_row_count A] ! k))"
    then have "j \<in> set (row_dependencies A k)" using k by simp
    from row_dependencies_before [OF this] rocsparse_fill_mode_lower
    have "j < k" by simp
    then show "j \<in> set (take k [0..<view_row_count A])" unfolding tk by simp
  qed
next
  case rocsparse_fill_mode_upper
  let ?n = "view_row_count A"
  from rocsparse_fill_mode_upper have so: "solve_order A = rev [0..<?n]"
    by (simp add: solve_order_def)
  from assms have k: "k < ?n" by (simp add: so)
  have nth: "rev [0..<?n] ! k = ?n - 1 - k" using k by (simp add: rev_nth)
  have "take k (rev [0..<?n]) = rev (drop (?n - k) [0..<?n])"
    using k by (simp add: take_rev)
  then have tk: "set (take k (rev [0..<?n])) = {?n - k..<?n}" by simp
  show ?thesis
    unfolding so nth tk
  proof (rule subsetI)
    fix j
    assume "j \<in> set (row_dependencies A (?n - 1 - k))"
    from row_dependencies_before [OF this] rocsparse_fill_mode_upper
    have "j < ?n" and "?n - 1 - k < j" by simp_all
    then show "j \<in> {?n - k..<?n}" using k by simp
  qed
qed

lemma build_level_schedule_fixpoint:
  "length (level_of (build_level_schedule A)) = view_row_count A
   \<and> (\<forall>i < view_row_count A.
         level_of (build_level_schedule A) ! i
         = row_level A (level_of (build_level_schedule A)) i)"
proof -
  let ?n = "view_row_count A"
  have lo: "level_of (build_level_schedule A)
            = assign_levels A (solve_order A) (replicate ?n 0)"
    by (simp add: build_level_schedule_def Let_def)
  have 1: "distinct (solve_order A)" and 2: "set (solve_order A) = {0..<?n}"
    using solve_order_props [of A] by simp_all
  have 3: "\<forall>i \<in> set (solve_order A). i < length (replicate ?n (0::nat))"
    using 2 by simp
  have 4: "\<forall>k < length (solve_order A).
             set (row_dependencies A (solve_order A ! k)) \<subseteq> {} \<union> set (take k (solve_order A))"
    using solve_order_dependencies [of _ A] by simp
  from assign_levels_fixpoint [OF 1 3 4] show ?thesis
    unfolding lo using 2 by simp
qed

lemma row_level_above_dependencies:
  assumes "j \<in> set (row_dependencies A i)"
  shows "ls ! j < row_level A ls i"
proof -
  from assms have ne: "row_dependencies A i \<noteq> []" by auto
  have "ls ! j \<le> Max (set (map (\<lambda>j. ls ! j) (row_dependencies A i)))"
    using assms by (intro Max_ge) auto
  then show ?thesis using ne by (simp add: row_level_def)
qed

lemma level_minimal:
  assumes fp: "\<forall>i < view_row_count A. ls ! i = row_level A ls i"
    and valid: "\<forall>i < view_row_count A.
                  1 \<le> l' i \<and> (\<forall>j \<in> set (row_dependencies A i). l' j < l' i)"
    and i: "i < view_row_count A"
  shows "ls ! i \<le> (l' i :: nat)"
  using i
proof (induction "ls ! i" arbitrary: i rule: less_induct)
  case less
  show ?case
  proof (cases "row_dependencies A i = []")
    case True
    then have "ls ! i = 1" using fp less.prems by (simp add: row_level_def)
    then show ?thesis using valid less.prems by simp
  next
    case False
    let ?L = "map (\<lambda>j. ls ! j) (row_dependencies A i)"
    have e: "ls ! i = 1 + Max (set ?L)"
      using fp less.prems False by (simp add: row_level_def)
    have "Max (set ?L) \<in> set ?L" using False by (intro Max_in) auto
    then obtain j where j: "j \<in> set (row_dependencies A i)" "Max (set ?L) = ls ! j"
      by auto
    from row_dependencies_before [OF j(1)] have jn: "j < view_row_count A" by simp
    have "ls ! j < ls ! i" using e j(2) by simp
    from less.hyps [OF this jn] have "ls ! j \<le> l' j" .
    also have "l' j < l' i" using valid less.prems j(1) by blast
    finally show ?thesis using e j(2) by simp
  qed
qed

text \<open>
  C7. For every matrix view, the level schedule holds one level per row, and for every
  row \<open>i\<close> the level is 1 when the row has no dependency and otherwise 1 plus the
  greatest level of its dependencies, the columns \<open>j\<close> of the row that are rows of
  the matrix and lie strictly before \<open>i\<close> in solve order (\<open>j < i\<close> for lower,
  \<open>j > i\<close> for upper fill mode). Consequently every dependency of a row has a
  strictly smaller level. The levels are the least possible: every assignment of levels
  from 1 upwards that puts each dependency strictly below its row gives each row at least
  the level of the schedule.
\<close>

theorem level_schedule_recurrence:
  "length (level_of (build_level_schedule A)) = view_row_count A
   \<and> (\<forall>i < view_row_count A.
         level_of (build_level_schedule A) ! i
         = (if row_dependencies A i = [] then 1
            else 1 + Max (set (map (\<lambda>j. level_of (build_level_schedule A) ! j)
                                (row_dependencies A i))))
         \<and> (\<forall>j \<in> set (row_dependencies A i).
               j < view_row_count A \<and> before_in_solve_order (view_fill_mode A) j i
               \<and> level_of (build_level_schedule A) ! j
                   < level_of (build_level_schedule A) ! i))
   \<and> (\<forall>l'. (\<forall>i < view_row_count A.
               1 \<le> l' i \<and> (\<forall>j \<in> set (row_dependencies A i). l' j < l' i))
          \<longrightarrow> (\<forall>i < view_row_count A.
                 level_of (build_level_schedule A) ! i \<le> (l' i :: nat)))"
proof -
  let ?ls = "level_of (build_level_schedule A)"
  from build_level_schedule_fixpoint [of A]
  have l: "length ?ls = view_row_count A"
    and fp: "\<forall>i < view_row_count A. ?ls ! i = row_level A ?ls i"
    by blast+
  have rows: "\<forall>i < view_row_count A.
         ?ls ! i = (if row_dependencies A i = [] then 1
            else 1 + Max (set (map (\<lambda>j. ?ls ! j) (row_dependencies A i))))
         \<and> (\<forall>j \<in> set (row_dependencies A i).
               j < view_row_count A \<and> before_in_solve_order (view_fill_mode A) j i
               \<and> ?ls ! j < ?ls ! i)"
  proof (intro allI impI conjI ballI)
    fix i
    assume i: "i < view_row_count A"
    with fp show "?ls ! i = (if row_dependencies A i = [] then 1
            else 1 + Max (set (map (\<lambda>j. ?ls ! j) (row_dependencies A i))))"
      by (simp add: row_level_def)
    fix j
    assume j: "j \<in> set (row_dependencies A i)"
    from row_dependencies_before [OF j]
    show "j < view_row_count A" and "before_in_solve_order (view_fill_mode A) j i"
      by simp_all
    from row_level_above_dependencies [OF j, of ?ls] fp i
    show "?ls ! j < ?ls ! i" by simp
  qed
  have minimal: "\<forall>l'. (\<forall>i < view_row_count A.
               1 \<le> l' i \<and> (\<forall>j \<in> set (row_dependencies A i). l' j < l' i))
          \<longrightarrow> (\<forall>i < view_row_count A. ?ls ! i \<le> (l' i :: nat))"
    using level_minimal [OF fp] by blast
  from l rows minimal show ?thesis by (intro conjI)
qed

theorem level_schedule_recurrence_witness:
  "row_dependencies scenario_lower 2 = [1]
   \<and> level_of (build_level_schedule scenario_lower) = [1, 2, 3]
   \<and> level_of (build_level_schedule scenario_lower) ! 1
       < level_of (build_level_schedule scenario_lower) ! 2"
proof -
  have d: "row_dependencies scenario_lower 2 = [1]" by code_simp
  have r: "level_of (build_level_schedule scenario_lower) = [1, 2, 3]" by code_simp
  have n: "(2::nat) < view_row_count scenario_lower" by (simp add: scenario_lower_def)
  from level_schedule_recurrence [of scenario_lower] n
  have "\<forall>j \<in> set (row_dependencies scenario_lower 2).
          level_of (build_level_schedule scenario_lower) ! j
          < level_of (build_level_schedule scenario_lower) ! 2"
    by blast
  then have "level_of (build_level_schedule scenario_lower) ! 1
       < level_of (build_level_schedule scenario_lower) ! 2"
    unfolding d by simp
  with d r show ?thesis by blast
qed

end
